theory Spec2Isabelle
  imports Main "HOL-Library.Word" "HOL-Library.Sublist"
begin

text \<open>
  A verification development for the voice pairing of the Paymore extension: the
  content script that inserts transcripts at the caret, the construction of the relay
  and pairing addresses, the popup that creates sessions and passes transcripts on, and
  the relay service that the popup talks to. The first part embeds the code, one
  definition per function of the sources and with their names, and models the relay,
  whose code is not in the sources, from its specification; the second part states and
  proves the properties.
\<close>

section \<open>JavaScript strings\<close>

text \<open>
  A JavaScript string is a sequence of UTF-16 code units; \<open>length\<close>, \<open>substring\<close>
  and the selection offsets of a text control all count code units. \<open>js\<close> embeds an
  ASCII literal of the source.
\<close>

type_synonym code_unit = "16 word"
type_synonym jsstring = "code_unit list"

definition js :: "string \<Rightarrow> jsstring" where
  "js s = map (\<lambda>c. word_of_nat (of_char c)) s"

section \<open>The content script: inserting a transcript at the caret\<close>

text \<open>
  The part of the document that \<open>insertAtCaret\<close> reads and writes: the focused element
  (\<open>document.activeElement\<close>, \<open>None\<close> for \<open>null\<close>), the events dispatched on it and the
  \<open>insertText\<close> commands handed to \<open>document.execCommand\<close>.

  An element is an \<open>HTMLInputElement\<close> with the state of its \<open>type\<close> attribute, an
  \<open>HTMLTextAreaElement\<close> or anything else. The input types \<open>text\<close>, \<open>search\<close>, \<open>url\<close>,
  \<open>tel\<close> and \<open>password\<close> are the ones with a text selection; \<open>TypeOther\<close> stands for
  every other type (\<open>number\<close>, \<open>email\<close>, \<open>date\<close>, \<open>checkbox\<close>, \<open>file\<close>, ...). The record
  holds what the getter \<open>value\<close> returns (for a textarea the API value) and the two ends
  of the selection as offsets into it.
\<close>

datatype input_type = TypeText | TypeSearch | TypeUrl | TypeTel | TypePassword | TypeOther

datatype element_kind = HTMLInputElement input_type | HTMLTextAreaElement | OtherElement

record element =
  kind :: element_kind
  contenteditable :: "jsstring option"
  "value" :: jsstring
  selection_start :: nat
  selection_end :: nat

record document =
  activeElement :: "element option"
  dispatched :: "jsstring list"
  execCommands :: "(jsstring \<times> jsstring) list"

datatype exn = InvalidStateError | URIError | TypeError

datatype completion = Returned | Threw exn

text \<open>\<open>el instanceof HTMLInputElement\<close>.\<close>

definition instanceof_HTMLInputElement :: "element \<Rightarrow> bool" where
  "instanceof_HTMLInputElement el =
     (case kind el of HTMLInputElement t \<Rightarrow> True | _ \<Rightarrow> False)"

text \<open>The text selection applies to a textarea and to an input of one of the five
  types named above.\<close>

definition selection_applies :: "element \<Rightarrow> bool" where
  "selection_applies el =
     (case kind el of
        HTMLInputElement t \<Rightarrow> t \<noteq> TypeOther
      | HTMLTextAreaElement \<Rightarrow> True
      | OtherElement \<Rightarrow> False)"

text \<open>The getters \<open>selectionStart\<close> and \<open>selectionEnd\<close>: \<open>None\<close> is \<open>null\<close>, which an
  input without a text selection returns.\<close>

definition selectionStart :: "element \<Rightarrow> nat option" where
  "selectionStart el = (if selection_applies el then Some (selection_start el) else None)"

definition selectionEnd :: "element \<Rightarrow> nat option" where
  "selectionEnd el = (if selection_applies el then Some (selection_end el) else None)"

text \<open>
  The value sanitization algorithm of an input and the newline normalisation of a
  textarea. Inputs of type \<open>text\<close>, \<open>search\<close>, \<open>tel\<close> and \<open>password\<close> strip the newlines
  (LF and CR) of an assigned string; \<open>url\<close> strips the newlines and then the leading
  and trailing ASCII whitespace (TAB, LF, FF, CR and SPACE); the API value of a textarea
  has every CR LF pair and every remaining CR replaced by LF.
\<close>

definition strip_newlines :: "jsstring \<Rightarrow> jsstring" where
  "strip_newlines v = filter (\<lambda>c. c \<noteq> 0x0A \<and> c \<noteq> 0x0D) v"

definition ascii_whitespace :: "code_unit \<Rightarrow> bool" where
  "ascii_whitespace c = (c = 0x09 \<or> c = 0x0A \<or> c = 0x0C \<or> c = 0x0D \<or> c = 0x20)"

definition strip_whitespace :: "jsstring \<Rightarrow> jsstring" where
  "strip_whitespace v = rev (dropWhile ascii_whitespace (rev (dropWhile ascii_whitespace v)))"

fun normalize_newlines :: "jsstring \<Rightarrow> jsstring" where
  "normalize_newlines [] = []"
| "normalize_newlines [c] = [if c = 0x0D then 0x0A else c]"
| "normalize_newlines (c # d # cs) =
     (if c = 0x0D \<and> d = 0x0A then 0x0A # normalize_newlines cs
      else if c = 0x0D then 0x0A # normalize_newlines (d # cs)
      else c # normalize_newlines (d # cs))"

definition sanitize :: "element_kind \<Rightarrow> jsstring \<Rightarrow> jsstring" where
  "sanitize k v =
     (case k of
        HTMLInputElement TypeUrl \<Rightarrow> strip_whitespace (strip_newlines v)
      | HTMLInputElement TypeOther \<Rightarrow> v
      | HTMLInputElement _ \<Rightarrow> strip_newlines v
      | HTMLTextAreaElement \<Rightarrow> normalize_newlines v
      | OtherElement \<Rightarrow> v)"

text \<open>
  The setter \<open>value\<close>. On a text control with a selection the assigned string is
  sanitized, and when the result differs from the old value the selection moves to its
  end. The setters of the remaining input types (which sanitize in their own ways, set
  the attribute, or throw \<open>InvalidStateError\<close> as \<open>file\<close> does) are the parameter
  \<open>assigned\<close>: the value the getter returns after the assignment, or the exception.
\<close>

definition set_value ::
  "(element \<Rightarrow> jsstring \<Rightarrow> exn + jsstring) \<Rightarrow> jsstring \<Rightarrow> element \<Rightarrow> exn + element" where
  "set_value assigned v el =
     (if selection_applies el
      then let v' = sanitize (kind el) v
           in Inr (if v' = value el then el
                   else el\<lparr>value := v', selection_start := length v',
                             selection_end := length v'\<rparr>)
      else (case assigned el v of
              Inl e \<Rightarrow> Inl e
            | Inr v' \<Rightarrow> Inr (el\<lparr>value := v'\<rparr>)))"

text \<open>\<open>setSelectionRange(a, b)\<close> throws \<open>InvalidStateError\<close> on an input without a text
  selection; otherwise both offsets are clamped to the length of the value, and the
  start to the end.\<close>

definition setSelectionRange :: "nat \<Rightarrow> nat \<Rightarrow> element \<Rightarrow> exn + element" where
  "setSelectionRange a b el =
     (if \<not> selection_applies el then Inl InvalidStateError
      else Inr (el\<lparr>selection_start := min (min a b) (length (value el)),
                     selection_end := min b (length (value el))\<rparr>))"

text \<open>\<open>s.substring(a, b)\<close> on offsets that are natural numbers: both are clamped to the
  length and swapped when \<open>a > b\<close>; \<open>s.substring(a)\<close> runs to the end.\<close>

definition substring :: "jsstring \<Rightarrow> nat \<Rightarrow> nat \<Rightarrow> jsstring" where
  "substring s a b = drop (min a b) (take (max a b) s)"

definition substring_from :: "jsstring \<Rightarrow> nat \<Rightarrow> jsstring" where
  "substring_from s a = drop a s"

text \<open>The property \<open>selectionStart\<close> exists (is not \<open>undefined\<close>) on inputs and
  textareas only.\<close>

definition selectionStart_defined :: "element \<Rightarrow> bool" where
  "selectionStart_defined el = (kind el \<noteq> OtherElement)"

definition insertAtCaret ::
  "(element \<Rightarrow> jsstring \<Rightarrow> exn + jsstring) \<Rightarrow> jsstring \<Rightarrow> document \<Rightarrow> completion \<times> document" where
  "insertAtCaret assigned text doc =
     (case activeElement doc of
        None \<Rightarrow> (Returned, doc)
      | Some el \<Rightarrow>
          let isEditable =
                (contenteditable el = Some (js '''') \<or> contenteditable el = Some (js ''true''))
          in
          if (selectionStart_defined el \<and> kind el = HTMLTextAreaElement)
             \<or> instanceof_HTMLInputElement el
          then
            let start = (case selectionStart el of None \<Rightarrow> length (value el) | Some s \<Rightarrow> s);
                end = (case selectionEnd el of None \<Rightarrow> length (value el) | Some e \<Rightarrow> e);
                before = substring (value el) 0 start;
                after = substring_from (value el) end
            in (case set_value assigned (before @ text @ after) el of
                  Inl e \<Rightarrow> (Threw e, doc)
                | Inr el1 \<Rightarrow>
                    let caret = start + length text
                    in (case setSelectionRange caret caret el1 of
                          Inl e \<Rightarrow> (Threw e, doc\<lparr>activeElement := Some el1\<rparr>)
                        | Inr el2 \<Rightarrow>
                            (Returned, doc\<lparr>activeElement := Some el2,
                                           dispatched := dispatched doc @ [js ''input'']\<rparr>)))
          else if isEditable
          then (Returned, doc\<lparr>execCommands := execCommands doc @ [(js ''insertText'', text)]\<rparr>)
          else (Returned, doc))"

text \<open>The message the content script receives: \<open>{ interim?: boolean; text: string }\<close>.\<close>

record transcript_msg =
  interim :: "bool option"
  "text" :: jsstring

text \<open>\<open>msg.interim ? msg.text : msg.text + " "\<close>: an absent \<open>interim\<close> is falsy.\<close>

definition toInsert :: "'a transcript_msg_scheme \<Rightarrow> jsstring" where
  "toInsert msg = (if interim msg = Some True then text msg else text msg @ js '' '')"

definition handleTranscriptMessage ::
  "(element \<Rightarrow> jsstring \<Rightarrow> exn + jsstring) \<Rightarrow> 'a transcript_msg_scheme \<Rightarrow> document
     \<Rightarrow> completion \<times> document" where
  "handleTranscriptMessage assigned msg doc = insertAtCaret assigned (toInsert msg) doc"

section \<open>Percent-encoding\<close>

text \<open>
  \<open>encodeURIComponent\<close> as ECMAScript defines it: a code unit of the unreserved set
  (\<open>A-Z a-z 0-9 - _ . ! ~ * ' ( )\<close>) is kept; any other code point is written as its
  UTF-8 octets, each as \<open>%\<close> and two upper-case hexadecimal digits; a surrogate code
  unit that is not part of a pair throws \<open>URIError\<close>.
\<close>

definition unreserved :: "code_unit \<Rightarrow> bool" where
  "unreserved c =
     (let n = unat c in
      (65 \<le> n \<and> n \<le> 90) \<or> (97 \<le> n \<and> n \<le> 122) \<or> (48 \<le> n \<and> n \<le> 57) \<or>
      n \<in> {45, 95, 46, 33, 126, 42, 39, 40, 41})"

definition hex_digit :: "nat \<Rightarrow> code_unit" where
  "hex_digit d = (if d < 10 then word_of_nat (48 + d) else word_of_nat (55 + d))"

definition percent :: "nat \<Rightarrow> jsstring" where
  "percent b = [0x25, hex_digit (b div 16), hex_digit (b mod 16)]"

definition utf8 :: "nat \<Rightarrow> nat list" where
  "utf8 cp =
     (if cp < 0x80 then [cp]
      else if cp < 0x800 then [0xC0 + cp div 64, 0x80 + cp mod 64]
      else if cp < 0x10000 then
        [0xE0 + cp div 4096, 0x80 + (cp div 64) mod 64, 0x80 + cp mod 64]
      else
        [0xF0 + cp div 262144, 0x80 + (cp div 4096) mod 64,
         0x80 + (cp div 64) mod 64, 0x80 + cp mod 64])"

definition lead_surrogate :: "code_unit \<Rightarrow> bool" where
  "lead_surrogate c = (0xD800 \<le> unat c \<and> unat c \<le> 0xDBFF)"

definition trail_surrogate :: "code_unit \<Rightarrow> bool" where
  "trail_surrogate c = (0xDC00 \<le> unat c \<and> unat c \<le> 0xDFFF)"

definition pair_code_point :: "code_unit \<Rightarrow> code_unit \<Rightarrow> nat" where
  "pair_code_point hi lo = (unat hi - 0xD800) * 0x400 + (unat lo - 0xDC00) + 0x10000"

definition escape :: "nat \<Rightarrow> jsstring" where
  "escape cp = concat (map percent (utf8 cp))"

definition prepend :: "jsstring \<Rightarrow> exn + jsstring \<Rightarrow> exn + jsstring" where
  "prepend p r = (case r of Inl e \<Rightarrow> Inl e | Inr s \<Rightarrow> Inr (p @ s))"

fun encodeURIComponent :: "jsstring \<Rightarrow> exn + jsstring" where
  "encodeURIComponent [] = Inr []"
| "encodeURIComponent (c # r) =
     (if unreserved c then prepend [c] (encodeURIComponent r)
      else if lead_surrogate c then
        (case r of
           [] \<Rightarrow> Inl URIError
         | d # r' \<Rightarrow>
             if trail_surrogate d
             then prepend (escape (pair_code_point c d)) (encodeURIComponent r')
             else Inl URIError)
      else if trail_surrogate c then Inl URIError
      else prepend (escape (unat c)) (encodeURIComponent r))"

text \<open>\<open>s.isWellFormed()\<close>: no surrogate code unit stands outside a pair.\<close>

fun isWellFormed :: "jsstring \<Rightarrow> bool" where
  "isWellFormed [] = True"
| "isWellFormed (c # r) =
     (if lead_surrogate c then
        (case r of [] \<Rightarrow> False | d # r' \<Rightarrow> trail_surrogate d \<and> isWellFormed r')
      else \<not> trail_surrogate c \<and> isWellFormed r)"

section \<open>Session information and the relay address\<close>

record SessionInfo =
  sessionId :: jsstring
  token :: jsstring
  relayUrl :: jsstring
  expiresAt :: int

text \<open>
  \<open>s.replace(/\/$/, "")\<close>: the pattern is tried at each offset from the left; it
  matches a \<open>/\<close> that is the last code unit of the string (\<open>$\<close> without the \<open>m\<close> flag is
  the end of the input), and the first match is replaced by the empty string.
\<close>

fun replace_trailing_slash :: "jsstring \<Rightarrow> jsstring" where
  "replace_trailing_slash [] = []"
| "replace_trailing_slash (c # cs) =
     (if c = 0x2F \<and> cs = [] then [] else c # replace_trailing_slash cs)"

definition buildRelayWsUrl :: "'a SessionInfo_scheme \<Rightarrow> exn + jsstring" where
  "buildRelayWsUrl info =
     (let base = replace_trailing_slash (relayUrl info)
      in prepend (base @ js ''/s/'' @ sessionId info @ js ''?t='')
           (encodeURIComponent (token info)))"

section \<open>The popup\<close>

subsection \<open>Values received from the relay\<close>

text \<open>
  A value produced by \<open>JSON.parse\<close>. An object is its list of properties, each key
  once. A number is held as the string that \<open>Number.prototype.toString\<close> prints for it
  (\<open>5\<close>, \<open>-0.5\<close>, \<open>1e+21\<close>): that string determines the number up to the sign of
  zero, both zeros print as \<open>0\<close>, and \<open>JSON.parse\<close> yields neither \<open>NaN\<close> nor an
  infinity.
\<close>

datatype json =
  JNull | JBool bool | JNum jsstring | JStr jsstring | JArr "json list"
| JObj "(jsstring \<times> json) list"

text \<open>\<open>v?.k\<close> for the keys the popup reads (\<open>type\<close>, \<open>interim\<close>, \<open>text\<close>), none of
  which is a property of a prototype: \<open>None\<close> is \<open>undefined\<close>.\<close>

fun get_prop :: "json \<Rightarrow> jsstring \<Rightarrow> json option" where
  "get_prop (JObj kvs) k = map_of kvs k"
| "get_prop _ k = None"

text \<open>\<open>ToBoolean\<close>: \<open>undefined\<close>, \<open>null\<close>, \<open>false\<close>, the number zero and the empty
  string are falsy.\<close>

fun truthy :: "json option \<Rightarrow> bool" where
  "truthy None = False"
| "truthy (Some JNull) = False"
| "truthy (Some (JBool b)) = b"
| "truthy (Some (JNum n)) = (n \<noteq> js ''0'')"
| "truthy (Some (JStr s)) = (s \<noteq> [])"
| "truthy (Some (JArr _)) = True"
| "truthy (Some (JObj _)) = True"

fun decimal :: "nat \<Rightarrow> jsstring" where
  "decimal n =
     (if n < 10 then [word_of_nat (48 + n)]
      else decimal (n div 10) @ [word_of_nat (48 + n mod 10)])"

text \<open>\<open>Array.prototype.join\<close> with the separator \<open>,\<close> on the string forms of the
  elements; the conversion of an element that throws ends the join.\<close>

fun join_comma :: "(exn + jsstring) list \<Rightarrow> exn + jsstring" where
  "join_comma [] = Inr []"
| "join_comma [r] = r"
| "join_comma (r # t # rs) =
     (case r of
        Inl e \<Rightarrow> Inl e
      | Inr a \<Rightarrow> (case join_comma (t # rs) of
                    Inl e \<Rightarrow> Inl e
                  | Inr b \<Rightarrow> Inr (a @ js '','' @ b)))"

text \<open>
  \<open>String(v)\<close>. An array prints its elements joined by commas, \<open>null\<close> elements as
  the empty string. An object is converted by \<open>toString\<close> and then \<open>valueOf\<close>: a
  parsed object prints as \<open>[object Object]\<close> through \<open>Object.prototype.toString\<close>,
  unless it has a property \<open>toString\<close> of its own, which is no function, and then
  \<open>Object.prototype.valueOf\<close> returns the object itself and the conversion throws
  \<open>TypeError\<close>.
\<close>

fun String_js :: "json \<Rightarrow> exn + jsstring" where
  "String_js JNull = Inr (js ''null'')"
| "String_js (JBool b) = Inr (if b then js ''true'' else js ''false'')"
| "String_js (JNum n) = Inr n"
| "String_js (JStr s) = Inr s"
| "String_js (JArr vs) =
     join_comma (map (\<lambda>v. if v = JNull then Inr [] else String_js v) vs)"
| "String_js (JObj kvs) =
     (if map_of kvs (js ''toString'') \<noteq> None then Inl TypeError
      else Inr (js ''[object Object]''))"

subsection \<open>State, environment and effects\<close>

text \<open>The message sent to the content script:
  \<open>{ action, interim, text, timestampMs }\<close>.\<close>

record pm_voice_transcript = transcript_msg +
  action :: jsstring
  timestampMs :: int

datatype tab = Tab (tab_id: "nat option")

datatype effect =
  Fetch jsstring jsstring jsstring
| GenerateQr jsstring nat
| NewWebSocket jsstring
| CloseWebSocket jsstring
| TabsSendMessage nat pm_voice_transcript

text \<open>The state of the component: the \<open>useState\<close> cells, the socket held by \<open>wsRef\<close>
  (its address; \<open>None\<close> for \<open>null\<close>) and the constant \<open>relayBase\<close>.\<close>

record popup =
  session :: "SessionInfo option"
  qrDataUrl :: "jsstring option"
  status :: jsstring
  language :: jsstring
  model :: jsstring
  preview :: jsstring
  wsRef :: "jsstring option"
  relayBase :: jsstring

text \<open>
  What the environment answers during \<open>createSession\<close>. A promise is fulfilled or
  rejected; a rejection carries the text that \<open>${e?.message || e}\<close> prints. The body of a
  response has the fields \<open>sessionId\<close>, \<open>token\<close> and an optional \<open>relayUrl\<close>.
  \<open>env_ws\<close> is \<open>Some m\<close> when \<open>new WebSocket\<close> throws an error that prints as \<open>m\<close>.
\<close>

datatype 'a settled = Fulfilled 'a | Rejected jsstring

datatype session_data = SessionData jsstring jsstring "jsstring option"

datatype response = Response (ok: bool) (status_code: nat) (json_body: "session_data settled")

record create_env =
  env_fetch :: "response settled"
  env_now :: int
  env_qr :: "jsstring settled"
  env_ws :: "jsstring option"

definition exn_message :: "exn \<Rightarrow> jsstring" where
  "exn_message e = (case e of URIError \<Rightarrow> js ''URI malformed''
                    | InvalidStateError \<Rightarrow> js ''InvalidStateError''
                    | TypeError \<Rightarrow> js ''Cannot convert object to primitive value'')"

definition exn_String :: "exn \<Rightarrow> jsstring" where
  "exn_String e = (case e of URIError \<Rightarrow> js ''URIError: URI malformed''
                   | InvalidStateError \<Rightarrow> js ''InvalidStateError''
                   | TypeError \<Rightarrow> js ''TypeError: Cannot convert object to primitive value'')"

subsection \<open>Creating and ending a session\<close>

definition append_encoded :: "exn + jsstring \<Rightarrow> jsstring \<Rightarrow> jsstring \<Rightarrow> exn + jsstring" where
  "append_encoded acc lit s =
     (case acc of Inl e \<Rightarrow> Inl e | Inr a \<Rightarrow> prepend (a @ lit) (encodeURIComponent s))"

text \<open>The address handed to the QR generator.\<close>

definition pairingUrl :: "jsstring \<Rightarrow> jsstring \<Rightarrow> 'a SessionInfo_scheme \<Rightarrow> exn + jsstring" where
  "pairingUrl lang mdl info =
     append_encoded
       (append_encoded
          (append_encoded
             (append_encoded (Inr []) (js ''https://voice.paymore.app?s='') (sessionId info))
             (js ''&t='') (token info))
          (js ''&lang='') lang)
       (js ''&model='') mdl"

definition connectRelay :: "jsstring option \<Rightarrow> SessionInfo \<Rightarrow> popup \<Rightarrow> popup \<times> effect list" where
  "connectRelay thrown info st =
     (let url = replace_trailing_slash (relayUrl info) @ js ''/s/'' @ sessionId info
      in case prepend (url @ js ''?t='') (encodeURIComponent (token info)) of
           Inl e \<Rightarrow> (st\<lparr>status := js ''Failed to connect relay: '' @ exn_String e\<rparr>, [])
         | Inr full \<Rightarrow>
             (case thrown of
                Some m \<Rightarrow> (st\<lparr>status := js ''Failed to connect relay: '' @ m\<rparr>, [])
              | None \<Rightarrow> (st\<lparr>wsRef := Some full\<rparr>, [NewWebSocket full])))"

definition failed_to_create :: "jsstring \<Rightarrow> popup \<Rightarrow> popup" where
  "failed_to_create m st = st\<lparr>status := js ''Failed to create session: '' @ m\<rparr>"

definition createSession :: "create_env \<Rightarrow> popup \<Rightarrow> popup \<times> effect list" where
  "createSession env st =
     (let st1 = st\<lparr>status := js ''Creating session...''\<rparr>;
          eff1 = [Fetch (replace_trailing_slash (relayBase st) @ js ''/sessions'')
                    (language st) (model st)]
      in case env_fetch env of
           Rejected m \<Rightarrow> (failed_to_create m st1, eff1)
         | Fulfilled res \<Rightarrow>
             if \<not> ok res
             then (failed_to_create (js ''HTTP '' @ decimal (status_code res)) st1, eff1)
             else
               (case json_body res of
                  Rejected m \<Rightarrow> (failed_to_create m st1, eff1)
                | Fulfilled (SessionData sid tok rurl) \<Rightarrow>
                    let info = \<lparr>sessionId = sid, token = tok,
                                relayUrl = (case rurl of None \<Rightarrow> relayBase st
                                            | Some u \<Rightarrow> if u = [] then relayBase st else u),
                                expiresAt = env_now env + 30 * 60 * 1000\<rparr>;
                        st2 = st1\<lparr>session := Some info\<rparr>
                    in case pairingUrl (language st) (model st) info of
                         Inl e \<Rightarrow> (failed_to_create (exn_message e) st2, eff1)
                       | Inr url \<Rightarrow>
                           let eff2 = eff1 @ [GenerateQr url 256]
                           in case env_qr env of
                                Rejected m \<Rightarrow> (failed_to_create m st2, eff2)
                              | Fulfilled qr \<Rightarrow>
                                  let st3 = st2\<lparr>qrDataUrl := Some qr\<rparr>;
                                      r = connectRelay (env_ws env) info st3
                                  in ((fst r)\<lparr>status := js ''Waiting for phone...''\<rparr>,
                                      eff2 @ snd r)))"

definition endSession :: "popup \<Rightarrow> popup \<times> effect list" where
  "endSession st =
     (st\<lparr>status := js ''Idle'', wsRef := None, session := None, qrDataUrl := None,
         preview := []\<rparr>,
      case wsRef st of None \<Rightarrow> [] | Some u \<Rightarrow> [CloseWebSocket u])"

subsection \<open>A message from the relay\<close>

text \<open>
  \<open>ws.onmessage\<close>. \<open>parsed\<close> is the result of \<open>JSON.parse(ev.data)\<close>, \<open>None\<close> when it
  throws; \<open>tabs\<close> and \<open>now\<close> are what \<open>chrome.tabs.query\<close> hands to its callback and
  what \<open>Date.now()\<close> returns there. An exception of \<open>String(msg.text || "")\<close> is
  caught by the handler's own \<open>catch\<close>, before the preview is set or a tab is
  queried.
\<close>

definition message_text :: "json \<Rightarrow> exn + jsstring" where
  "message_text msg =
     (if truthy (get_prop msg (js ''text''))
      then (case get_prop msg (js ''text'') of Some v \<Rightarrow> String_js v | None \<Rightarrow> Inr [])
      else String_js (JStr []))"

definition forward_to_tab :: "json \<Rightarrow> jsstring \<Rightarrow> int \<Rightarrow> tab list \<Rightarrow> effect list" where
  "forward_to_tab msg t now tabs =
     (case tabs of
        [] \<Rightarrow> []
      | tab # _ \<Rightarrow>
          (case tab_id tab of
             None \<Rightarrow> []
           | Some i \<Rightarrow>
               if i = 0 then []
               else [TabsSendMessage i
                       \<lparr>interim = Some (truthy (get_prop msg (js ''interim''))),
                        text = t,
                        action = js ''pm-voice-transcript'',
                        timestampMs = now\<rparr>]))"

definition onmessage :: "json option \<Rightarrow> int \<Rightarrow> tab list \<Rightarrow> popup \<Rightarrow> popup \<times> effect list" where
  "onmessage parsed now tabs st =
     (case parsed of
        None \<Rightarrow> (st, [])
      | Some msg \<Rightarrow>
          if get_prop msg (js ''type'') = Some (JStr (js ''transcript''))
          then
            (case message_text msg of
               Inl e \<Rightarrow> (st, [])
             | Inr t \<Rightarrow>
                 (st\<lparr>preview := (if truthy (get_prop msg (js ''interim''))
                                  then t
                                  else preview st @ [0x0A] @ t)\<rparr>,
                  forward_to_tab msg t now tabs))
          else (st, []))"

subsection \<open>The component as a transition system\<close>

datatype event =
  CreateSession create_env
| EndSession
| WsOpen
| WsClose
| WsError
| WsMessage "json option" int "tab list"
| SetLanguage jsstring
| SetModel jsstring
| Unmount

fun step :: "event \<Rightarrow> popup \<Rightarrow> popup \<times> effect list" where
  "step (CreateSession env) st = createSession env st"
| "step EndSession st = endSession st"
| "step WsOpen st = (st\<lparr>status := js ''Connected to relay''\<rparr>, [])"
| "step WsClose st = (st\<lparr>status := js ''Disconnected''\<rparr>, [])"
| "step WsError st = (st\<lparr>status := js ''Relay error''\<rparr>, [])"
| "step (WsMessage parsed now tabs) st = onmessage parsed now tabs st"
| "step (SetLanguage l) st = (st\<lparr>language := l\<rparr>, [])"
| "step (SetModel m) st = (st\<lparr>model := m\<rparr>, [])"
| "step Unmount st = (st, case wsRef st of None \<Rightarrow> [] | Some u \<Rightarrow> [CloseWebSocket u])"

fun run :: "event list \<Rightarrow> popup \<Rightarrow> popup" where
  "run [] st = st"
| "run (ev # evs) st = run evs (fst (step ev st))"

text \<open>The state of a freshly mounted component.\<close>

definition initial :: "jsstring \<Rightarrow> popup" where
  "initial base =
     \<lparr>session = None, qrDataUrl = None, status = js ''Idle'', language = js ''en-US'',
      model = js ''gemini-2.5-pro'', preview = [], wsRef = None, relayBase = base\<rparr>"

section \<open>Decoding a pairing address\<close>

text \<open>
  The page at \<open>voice.paymore.app\<close> reads \<open>s\<close> and \<open>t\<close> back from the query of the
  pairing address. This section gives the reading side, so that what the address
  encodes can be stated; it is no part of the popup.

  \<open>decodeURIComponent\<close>, the inverse applied to a query parameter: \<open>%\<close> must be followed by two hexadecimal digits, and the octets so written
  must be well-formed UTF-8 (shortest form, no surrogate, at most \<open>U+10FFFF\<close>); anything
  else throws \<open>URIError\<close>.
\<close>

definition hex_value :: "code_unit \<Rightarrow> nat option" where
  "hex_value c =
     (let n = unat c in
      if 48 \<le> n \<and> n \<le> 57 then Some (n - 48)
      else if 65 \<le> n \<and> n \<le> 70 then Some (n - 55)
      else if 97 \<le> n \<and> n \<le> 102 then Some (n - 87)
      else None)"

datatype item = Lit code_unit | Octet nat

fun octets :: "jsstring \<Rightarrow> item list option" where
  "octets [] = Some []"
| "octets (c # r) =
     (if c \<noteq> 0x25 then map_option (Cons (Lit c)) (octets r)
      else
        (case r of
           a # b # r' \<Rightarrow>
             (case (hex_value a, hex_value b) of
                (Some x, Some y) \<Rightarrow> map_option (Cons (Octet (16 * x + y))) (octets r')
              | _ \<Rightarrow> None)
         | _ \<Rightarrow> None))"

definition continuation :: "nat \<Rightarrow> bool" where
  "continuation b = (0x80 \<le> b \<and> b < 0xC0)"

fun utf16 :: "item list \<Rightarrow> jsstring option" where
  "utf16 [] = Some []"
| "utf16 (Lit c # r) = map_option (Cons c) (utf16 r)"
| "utf16 (Octet b # r) =
     (if b < 0x80 then map_option (Cons (word_of_nat b)) (utf16 r)
      else if 0xC2 \<le> b \<and> b < 0xE0 then
        (case r of
           Octet b1 # r' \<Rightarrow>
             if continuation b1
             then map_option (Cons (word_of_nat ((b - 0xC0) * 64 + (b1 - 0x80)))) (utf16 r')
             else None
         | _ \<Rightarrow> None)
      else if 0xE0 \<le> b \<and> b < 0xF0 then
        (case r of
           Octet b1 # Octet b2 # r' \<Rightarrow>
             let cp = (b - 0xE0) * 4096 + (b1 - 0x80) * 64 + (b2 - 0x80)
             in if continuation b1 \<and> continuation b2 \<and> 0x800 \<le> cp
                   \<and> \<not> (0xD800 \<le> cp \<and> cp \<le> 0xDFFF)
                then map_option (Cons (word_of_nat cp)) (utf16 r')
                else None
         | _ \<Rightarrow> None)
      else if 0xF0 \<le> b \<and> b < 0xF5 then
        (case r of
           Octet b1 # Octet b2 # Octet b3 # r' \<Rightarrow>
             let cp = (b - 0xF0) * 262144 + (b1 - 0x80) * 4096 + (b2 - 0x80) * 64 + (b3 - 0x80)
             in if continuation b1 \<and> continuation b2 \<and> continuation b3
                   \<and> 0x10000 \<le> cp \<and> cp \<le> 0x10FFFF
                then map_option
                       (\<lambda>s. word_of_nat (0xD800 + (cp - 0x10000) div 0x400)
                            # word_of_nat (0xDC00 + (cp - 0x10000) mod 0x400) # s)
                       (utf16 r')
                else None
         | _ \<Rightarrow> None)
      else None)"

definition decodeURIComponent :: "jsstring \<Rightarrow> exn + jsstring" where
  "decodeURIComponent s =
     (case octets s of
        None \<Rightarrow> Inl URIError
      | Some items \<Rightarrow> (case utf16 items of None \<Rightarrow> Inl URIError | Some r \<Rightarrow> Inr r))"

text \<open>
  Reading a parameter of the query of an address: the query is what follows the first
  \<open>?\<close>, its fields are separated by \<open>&\<close>, a field is a key and a value separated by its
  first \<open>=\<close>, and the value of the first field with the key is decoded.
\<close>

fun split_on :: "code_unit \<Rightarrow> jsstring \<Rightarrow> jsstring list" where
  "split_on sep [] = [[]]"
| "split_on sep (c # cs) =
     (if c = sep then [] # split_on sep cs
      else (case split_on sep cs of x # xs \<Rightarrow> (c # x) # xs | [] \<Rightarrow> [[c]]))"

definition search :: "jsstring \<Rightarrow> jsstring" where
  "search url = tl (dropWhile (\<lambda>c. c \<noteq> 0x3F) url)"

definition key_value :: "jsstring \<Rightarrow> jsstring \<times> jsstring" where
  "key_value p = (takeWhile (\<lambda>c. c \<noteq> 0x3D) p, tl (dropWhile (\<lambda>c. c \<noteq> 0x3D) p))"

definition searchParam :: "jsstring \<Rightarrow> jsstring \<Rightarrow> jsstring option" where
  "searchParam k url =
     (case map_of (map key_value (split_on 0x26 (search url))) k of
        None \<Rightarrow> None
      | Some v \<Rightarrow> (case decodeURIComponent v of Inl _ \<Rightarrow> None | Inr s \<Rightarrow> Some s))"

text \<open>The octets and literal code units that \<open>encodeURIComponent\<close> writes for a string,
  and the code units that delimit the fields of a query.\<close>

fun items :: "jsstring \<Rightarrow> item list" where
  "items [] = []"
| "items (c # r) =
     (if unreserved c then Lit c # items r
      else if lead_surrogate c then
        (case r of [] \<Rightarrow> [] | d # r' \<Rightarrow> map Octet (utf8 (pair_code_point c d)) @ items r')
      else map Octet (utf8 (unat c)) @ items r)"

definition delimiter :: "code_unit \<Rightarrow> bool" where
  "delimiter c = (c = 0x26 \<or> c = 0x3D \<or> c = 0x3F)"

section \<open>The relay service\<close>

text \<open>
  The relay is a service of its own; the sources hold its callers (the popup) and its
  design, not its code. This section models the token service and the room
  multiplexer from the specification.
\<close>

subsection \<open>Token service\<close>

text \<open>
  Modelled from the spec: the credential of the token service (section 4.1), which is not
  in the sources: a compact structure holding the session identifier \<open>sid\<close>
  and the absolute expiry \<open>exp\<close>, signed; \<open>Malformed\<close> is any
  presented value without that structure. The signature is left abstract in the type
  \<open>'g\<close>.
\<close>

datatype 'g credential = Malformed | Signed (cred_sid: string) (cred_exp: int) (cred_sig: 'g)

text \<open>
  Modelled from the spec: the result of \<open>verify\<close>, \<open>{sessionId,
  expiresAt} | Invalid\<close>.
\<close>

datatype verdict = Invalid | Valid string int

text \<open>
  Modelled from the spec: \<open>issue(sessionId, ttl)\<close> of the token service, at
  the clock reading \<open>now\<close>. The parameter \<open>mac\<close> is the signature
  under the process-wide secret.
\<close>

definition issue :: "(string \<Rightarrow> int \<Rightarrow> 'g) \<Rightarrow> string \<Rightarrow> int \<Rightarrow> int \<Rightarrow> 'g credential" where
  "issue mac sid now ttl = Signed sid (now + ttl) (mac sid (now + ttl))"

text \<open>
  Modelled from the spec: \<open>verify(credential)\<close> of the token service:
  \<open>Invalid\<close> when the structure is malformed, when the signature does not
  match, and when \<open>exp\<close> has passed, the instant \<open>exp\<close> itself
  included.
\<close>

definition verify :: "(string \<Rightarrow> int \<Rightarrow> 'g) \<Rightarrow> int \<Rightarrow> 'g credential \<Rightarrow> verdict" where
  "verify mac now c =
     (case c of
        Malformed \<Rightarrow> Invalid
      | Signed s e g \<Rightarrow>
          if g \<noteq> mac s e then Invalid
          else if e \<le> now then Invalid
          else Valid s e)"

subsection \<open>Room multiplexer\<close>

text \<open>
  Modelled from the spec: the two roles of a connection in a room (section 3).
\<close>

datatype role = Producer | Consumer

text \<open>
  Modelled from the spec: the close codes of section 6.
\<close>

datatype close_code =
  InvalidCredential | SessionExpired | SessionMismatch | ProducerSlotOccupied
| OversizedMessage | MalformedMessage | RateLimited | BackpressureOverflow | NormalClosure

text \<open>
  Modelled from the spec: the \<open>ClientMessage\<close> union of section 6:
  \<open>hello\<close>, and a transcript with \<open>interim\<close>, \<open>text\<close>
  and an optional \<open>ts\<close>.
\<close>

datatype client_message = Hello | ClientTranscript bool string "int option"

text \<open>
  Modelled from the spec: the \<open>ServerMessage\<close> union of section 6:
  \<open>ready\<close>, an error with a code and a message, and a transcript with
  \<open>interim\<close>, \<open>text\<close> and \<open>timestampMs\<close>.
\<close>

datatype server_message = Ready | ServerError string string | ServerTranscript bool string int

text \<open>
  Modelled from the spec: what deserialising an inbound frame yields (section 4.4): a
  frame over the size cap, a payload that is not JSON, an unknown tag, or a known message.
\<close>

datatype frame = Oversized | NotJson | UnknownTag | Message client_message

text \<open>
  Modelled from the spec: the states of a connection that is in a room (section 4.4); a
  connection that is \<open>Closed\<close> is no longer in it.
\<close>

datatype phase = Joined | Closing close_code

text \<open>
  Modelled from the spec: a connection of the room multiplexer: its role and state, its
  bounded outbound queue, and for the statement of the ordering properties the frames
  already put on the wire and the number of broadcasts that preceded its join.
\<close>

record member =
  m_role :: role
  m_phase :: phase
  outq :: "server_message list"
  written :: "server_message list"
  joined_at :: nat

text \<open>
  Modelled from the spec: the room of section 3: its connections by identifier, the
  connections turned away at the door with their close codes, and the transcripts
  broadcast so far, in the order in which the producer's frames were handled.
\<close>

record room =
  members :: "(nat \<times> member) list"
  rejected :: "(nat \<times> close_code) list"
  broadcasts :: "server_message list"

text \<open>
  Modelled from the spec: an interim transcript (\<open>interim: true\<close>).
\<close>

fun is_interim :: "server_message \<Rightarrow> bool" where
  "is_interim (ServerTranscript i _ _) = i"
| "is_interim _ = False"

text \<open>
  Modelled from the spec: a final transcript (\<open>interim: false\<close>).
\<close>

fun is_final :: "server_message \<Rightarrow> bool" where
  "is_final (ServerTranscript i _ _) = (\<not> i)"
| "is_final _ = False"

text \<open>
  Modelled from the spec: a transcript of either kind.
\<close>

fun is_transcript :: "server_message \<Rightarrow> bool" where
  "is_transcript (ServerTranscript _ _ _) = True"
| "is_transcript _ = False"

text \<open>
  Modelled from the spec: the relay fills in \<open>timestampMs\<close> from its clock
  when the producer left \<open>ts\<close> out, and keeps the producer's value otherwise
  (section 4.4).
\<close>

definition stamp :: "int \<Rightarrow> bool \<Rightarrow> string \<Rightarrow> int option \<Rightarrow> server_message" where
  "stamp now i t ts = ServerTranscript i t (case ts of None \<Rightarrow> now | Some v \<Rightarrow> v)"

text \<open>
  Modelled from the spec: the drop-oldest-interim policy of section 5: the first interim
  transcript of the queue is removed.
\<close>

fun drop_oldest_interim :: "server_message list \<Rightarrow> server_message list" where
  "drop_oldest_interim [] = []"
| "drop_oldest_interim (x # xs) = (if is_interim x then xs else x # drop_oldest_interim xs)"

text \<open>
  Modelled from the spec: queueing one message on a connection of capacity
  \<open>cap\<close> (section 5): with room it is appended; on a full queue the oldest
  interim gives way to it; when the queue holds no interim, an interim is dropped and a
  final closes the connection with the backpressure code.
\<close>

definition offer :: "nat \<Rightarrow> server_message \<Rightarrow> member \<Rightarrow> member" where
  "offer cap m mb =
     (if length (outq mb) < cap then mb\<lparr>outq := outq mb @ [m]\<rparr>
      else if list_ex is_interim (outq mb)
      then mb\<lparr>outq := drop_oldest_interim (outq mb) @ [m]\<rparr>
      else if is_interim m then mb
      else mb\<lparr>m_phase := Closing BackpressureOverflow\<rparr>)"

text \<open>
  Modelled from the spec: a message is handed to the consumers that are joined.
\<close>

definition receives :: "member \<Rightarrow> bool" where
  "receives mb = (m_role mb = Consumer \<and> m_phase mb = Joined)"

text \<open>
  Modelled from the spec: the fan-out of section 4.4: every joined consumer is offered the
  message, in the room's single order.
\<close>

definition broadcast :: "nat \<Rightarrow> server_message \<Rightarrow> room \<Rightarrow> room" where
  "broadcast cap m r =
     r\<lparr>members := map (\<lambda>(c, mb). (c, if receives mb then offer cap m mb else mb)) (members r),
       broadcasts := broadcasts r @ [m]\<rparr>"

text \<open>
  Modelled from the spec: a change to one connection of the room.
\<close>

definition update_member :: "nat \<Rightarrow> (member \<Rightarrow> member) \<Rightarrow> room \<Rightarrow> room" where
  "update_member c f r =
     r\<lparr>members := map (\<lambda>(c', mb). (c', if c' = c then f mb else mb)) (members r)\<rparr>"

text \<open>
  Modelled from the spec: the relay or the peer closes a joined connection: it moves to
  \<open>Closing\<close> with the code.
\<close>

definition close :: "nat \<Rightarrow> close_code \<Rightarrow> room \<Rightarrow> room" where
  "close c code r =
     update_member c (\<lambda>mb. if m_phase mb = Joined then mb\<lparr>m_phase := Closing code\<rparr> else mb) r"

text \<open>
  Modelled from the spec: the connections holding the producer role.
\<close>

definition producers :: "room \<Rightarrow> (nat \<times> member) list" where
  "producers r = filter (\<lambda>(c, mb). m_role mb = Producer) (members r)"

text \<open>
  Modelled from the spec: a connection that fails to join goes to \<open>Closing\<close>
  with its code and never reaches \<open>Joined\<close>.
\<close>

definition reject :: "nat \<Rightarrow> close_code \<Rightarrow> room \<Rightarrow> room" where
  "reject c code r = r\<lparr>rejected := rejected r @ [(c, code)]\<rparr>"

text \<open>
  Modelled from the spec: a well-signed credential whose \<open>exp\<close> has passed,
  for the choice of the close code.
\<close>

definition expired :: "(string \<Rightarrow> int \<Rightarrow> 'g) \<Rightarrow> int \<Rightarrow> 'g credential \<Rightarrow> bool" where
  "expired mac now c =
     (case c of Malformed \<Rightarrow> False | Signed s e g \<Rightarrow> g = mac s e \<and> e \<le> now)"

text \<open>
  Modelled from the spec: the transition \<open>Authenticating \<rightarrow>
  Joined\<close> of section 4.4, as one atomic step (section 5): the credential is
  verified at the clock reading of the attempt, its \<open>sid\<close> must equal the
  room's identifier, and the producer role is granted only when no connection holds it; a
  joining connection is sent \<open>ready\<close> first.
\<close>

definition join :: "(string \<Rightarrow> int \<Rightarrow> 'g) \<Rightarrow> string \<Rightarrow> nat \<Rightarrow> role \<Rightarrow> 'g credential \<Rightarrow> int \<Rightarrow> room \<Rightarrow> room" where
  "join mac sid c rl cred now r =
     (if map_of (members r) c \<noteq> None then r
      else
        (case verify mac now cred of
           Invalid \<Rightarrow>
             reject c (if expired mac now cred then SessionExpired else InvalidCredential) r
         | Valid s e \<Rightarrow>
             if s \<noteq> sid then reject c SessionMismatch r
             else if rl = Producer \<and> producers r \<noteq> [] then reject c ProducerSlotOccupied r
             else r\<lparr>members := members r @
                      [(c, \<lparr>m_role = rl, m_phase = Joined, outq = [Ready], written = [],
                            joined_at = length (broadcasts r)\<rparr>)]\<rparr>))"

text \<open>
  Modelled from the spec: the handling of an inbound frame of a joined connection (section
  4.4): a frame that is no known message closes the connection; a transcript of a consumer
  is not passed on; a transcript of the producer that the rate limiter lets through
  (\<open>allowed\<close>) is stamped and broadcast.
\<close>

definition on_frame :: "nat \<Rightarrow> nat \<Rightarrow> frame \<Rightarrow> int \<Rightarrow> bool \<Rightarrow> room \<Rightarrow> room" where
  "on_frame cap c fr now allowed r =
     (case map_of (members r) c of
        None \<Rightarrow> r
      | Some mb \<Rightarrow>
          if m_phase mb \<noteq> Joined then r
          else
            (case fr of
               Oversized \<Rightarrow> close c OversizedMessage r
             | NotJson \<Rightarrow> close c MalformedMessage r
             | UnknownTag \<Rightarrow> close c MalformedMessage r
             | Message Hello \<Rightarrow> r
             | Message (ClientTranscript i t ts) \<Rightarrow>
                 if m_role mb = Consumer then r
                 else if \<not> allowed then r
                 else broadcast cap (stamp now i t ts) r))"

text \<open>
  Modelled from the spec: the writer of a connection puts the head of its outbound queue
  on the wire.
\<close>

definition flush_one :: "member \<Rightarrow> member" where
  "flush_one mb =
     (case outq mb of [] \<Rightarrow> mb | x # xs \<Rightarrow> mb\<lparr>outq := xs, written := written mb @ [x]\<rparr>)"

text \<open>
  Modelled from the spec: what can happen to a room: a join attempt, an inbound frame
  (with the clock reading and the rate limiter's answer), a write, a close by the peer,
  the escalation of the rate limit, the end of a closing connection, and the expiry of the
  session.
\<close>

datatype 'g room_event =
  Join nat role "'g credential" int
| Frame nat frame int bool
| Written nat
| PeerClose nat
| Escalate nat
| TornDown nat
| Expire

text \<open>
  Modelled from the spec: the room as a transition system; each event is one atomic step,
  which section 5 requires of membership changes and broadcasts.
\<close>

fun room_step ::
  "(string \<Rightarrow> int \<Rightarrow> 'g) \<Rightarrow> string \<Rightarrow> nat \<Rightarrow> 'g room_event \<Rightarrow> room \<Rightarrow> room" where
  "room_step mac sid cap (Join c rl cred now) r = join mac sid c rl cred now r"
| "room_step mac sid cap (Frame c fr now allowed) r = on_frame cap c fr now allowed r"
| "room_step mac sid cap (Written c) r = update_member c flush_one r"
| "room_step mac sid cap (PeerClose c) r = close c NormalClosure r"
| "room_step mac sid cap (Escalate c) r = close c RateLimited r"
| "room_step mac sid cap (TornDown c) r =
     r\<lparr>members := filter (\<lambda>(c', mb). c' \<noteq> c \<or> m_phase mb = Joined) (members r)\<rparr>"
| "room_step mac sid cap Expire r =
     r\<lparr>members := map (\<lambda>(c, mb). (c, if m_phase mb = Joined
                                     then mb\<lparr>m_phase := Closing SessionExpired\<rparr> else mb))
                      (members r)\<rparr>"

text \<open>
  Modelled from the spec: a room before its first connection.
\<close>

definition empty_room :: room where
  "empty_room = \<lparr>members = [], rejected = [], broadcasts = []\<rparr>"

text \<open>
  Modelled from the spec: the room after a sequence of events.
\<close>

fun run_room ::
  "(string \<Rightarrow> int \<Rightarrow> 'g) \<Rightarrow> string \<Rightarrow> nat \<Rightarrow> 'g room_event list \<Rightarrow> room \<Rightarrow> room" where
  "run_room mac sid cap [] r = r"
| "run_room mac sid cap (ev # evs) r = run_room mac sid cap evs (room_step mac sid cap ev r)"

text \<open>
  Modelled from the spec: what an event adds to the broadcasts of a room: the stamped
  transcript of a frame that the joined producer sent and the rate limiter let through,
  and nothing otherwise.
\<close>

definition handled :: "'g room_event \<Rightarrow> room \<Rightarrow> server_message list" where
  "handled ev r =
     (case ev of
        Frame c (Message (ClientTranscript i t ts)) now allowed \<Rightarrow>
          (case map_of (members r) c of
             None \<Rightarrow> []
           | Some mb \<Rightarrow>
               if m_phase mb = Joined \<and> m_role mb = Producer \<and> allowed
               then [stamp now i t ts] else [])
      | _ \<Rightarrow> [])"

subsection \<open>Invariants of a room\<close>

text \<open>
  For a connection \<open>mb\<close> and the broadcasts \<open>B\<close> of its room: the transcripts written to it or
  still queued for it are, in order, among the broadcasts since it joined (\<open>fifo\<close>), and
  while it is a joined consumer they include every final one (\<open>finals_kept\<close>). Two rooms
  have the \<open>same_core\<close> when they differ at most in the connections turned away.
\<close>

definition fifo :: "server_message list \<Rightarrow> member \<Rightarrow> bool" where
  "fifo B mb = subseq (filter is_transcript (written mb @ outq mb)) (drop (joined_at mb) B)"

definition finals_kept :: "server_message list \<Rightarrow> member \<Rightarrow> bool" where
  "finals_kept B mb =
     (receives mb \<longrightarrow>
        filter is_final (written mb @ outq mb) = filter is_final (drop (joined_at mb) B))"

definition member_inv :: "server_message list \<Rightarrow> member \<Rightarrow> bool" where
  "member_inv B mb = (joined_at mb \<le> length B \<and> fifo B mb \<and> finals_kept B mb)"

definition room_inv :: "room \<Rightarrow> bool" where
  "room_inv r =
     (distinct (map fst (members r)) \<and> length (producers r) \<le> 1 \<and>
      (\<forall>(c, mb)\<in>set (members r). member_inv (broadcasts r) mb))"

definition same_core :: "room \<Rightarrow> room \<Rightarrow> bool" where
  "same_core r1 r2 = (members r1 = members r2 \<and> broadcasts r1 = broadcasts r2)"

text \<open>
  Modelled from the spec: the bounded queue of section 5 had room for every broadcast
  offered to connection \<open>c\<close> along a sequence of events: whenever an event
  broadcast a transcript, the queue of \<open>c\<close>, if \<open>c\<close> was a joined consumer then,
  held fewer than \<open>cap\<close> messages.
\<close>

fun had_room ::
  "(string \<Rightarrow> int \<Rightarrow> 'g) \<Rightarrow> string \<Rightarrow> nat \<Rightarrow> nat \<Rightarrow> 'g room_event list \<Rightarrow> room \<Rightarrow> bool" where
  "had_room mac sid cap c [] r = True"
| "had_room mac sid cap c (ev # evs) r =
     ((handled ev r \<noteq> [] \<longrightarrow>
         list_all (\<lambda>(c', mb). c' = c \<and> receives mb \<longrightarrow> length (outq mb) < cap) (members r)) \<and>
      had_room mac sid cap c evs (room_step mac sid cap ev r))"

text \<open>
  The transcripts written to a connection or still queued for it are exactly the
  broadcasts since it joined (\<open>exact\<close>); \<open>lossless c\<close> says so of the connection
  \<open>c\<close> while it is a joined consumer.
\<close>

definition exact :: "server_message list \<Rightarrow> member \<Rightarrow> bool" where
  "exact B mb = (filter is_transcript (written mb @ outq mb) = drop (joined_at mb) B)"

definition lossless :: "nat \<Rightarrow> room \<Rightarrow> bool" where
  "lossless c r =
     (\<forall>(c', mb)\<in>set (members r). c' = c \<and> receives mb \<longrightarrow>
        filter is_transcript (written mb @ outq mb) = drop (joined_at mb) (broadcasts r))"

section \<open>Properties of the content script\<close>

lemma js_length [simp]: "length (js s) = length s"
  by (simp add: js_def)

lemma selection_applies_update:
  "selection_applies (el\<lparr>value := v, selection_start := a, selection_end := b\<rparr>)
     = selection_applies el"
  by (simp add: selection_applies_def)

lemma insertAtCaret_text_control:
  assumes a: "activeElement doc = Some el" and ap: "selection_applies el"
  shows "insertAtCaret assigned t doc =
    (Returned, doc\<lparr>activeElement :=
        Some (el\<lparr>value := sanitize (kind el)
                    (take (selection_start el) (value el) @ t @ drop (selection_end el) (value el)),
                  selection_start := min (selection_start el + length t)
                    (length (sanitize (kind el)
                      (take (selection_start el) (value el) @ t @ drop (selection_end el) (value el)))),
                  selection_end := min (selection_start el + length t)
                    (length (sanitize (kind el)
                      (take (selection_start el) (value el) @ t @ drop (selection_end el) (value el))))\<rparr>),
      dispatched := dispatched doc @ [js ''input'']\<rparr>)"
proof -
  let ?x = "take (selection_start el) (value el) @ t @ drop (selection_end el) (value el)"
  let ?v = "sanitize (kind el) ?x"
  let ?c = "min (selection_start el + length t) (length ?v)"
  let ?el1 = "if ?v = value el then el
              else el\<lparr>value := ?v, selection_start := length ?v, selection_end := length ?v\<rparr>"
  have c: "(selectionStart_defined el \<and> kind el = HTMLTextAreaElement)
             \<or> instanceof_HTMLInputElement el"
    using ap
    by (auto simp: selectionStart_defined_def selection_applies_def instanceof_HTMLInputElement_def
        split: element_kind.splits)
  have ss: "selectionStart el = Some (selection_start el)"
    and se: "selectionEnd el = Some (selection_end el)"
    using ap by (simp_all add: selectionStart_def selectionEnd_def)
  have sv: "set_value assigned ?x el = Inr ?el1"
    using ap by (simp add: set_value_def Let_def)
  have ap1: "selection_applies ?el1"
    using ap by (simp add: selection_applies_update)
  have v1: "value ?el1 = ?v" by simp
  have "setSelectionRange (selection_start el + length t) (selection_start el + length t) ?el1
      = Inr (?el1\<lparr>selection_start := ?c, selection_end := ?c\<rparr>)"
    unfolding setSelectionRange_def using ap1 by (simp only: v1 if_False not_True_eq_False min.idem)
  moreover have "?el1\<lparr>selection_start := ?c, selection_end := ?c\<rparr>
      = el\<lparr>value := ?v, selection_start := ?c, selection_end := ?c\<rparr>"
    by (cases "?v = value el") simp_all
  ultimately have sr:
    "setSelectionRange (selection_start el + length t) (selection_start el + length t) ?el1
      = Inr (el\<lparr>value := ?v, selection_start := ?c, selection_end := ?c\<rparr>)"
    by simp
  show ?thesis
    unfolding insertAtCaret_def Let_def using a c
    by (simp add: ss se substring_def substring_from_def sv sr)
qed

lemma insertAtCaret_no_focus:
  "activeElement doc = None \<Longrightarrow> insertAtCaret assigned t doc = (Returned, doc)"
  by (simp add: insertAtCaret_def)

lemma insertAtCaret_other:
  "activeElement doc = Some el \<Longrightarrow> kind el = OtherElement \<Longrightarrow>
     insertAtCaret assigned t doc =
       (Returned,
        if contenteditable el = Some (js '''') \<or> contenteditable el = Some (js ''true'')
        then doc\<lparr>execCommands := execCommands doc @ [(js ''insertText'', t)]\<rparr> else doc)"
  by (simp add: insertAtCaret_def selectionStart_defined_def instanceof_HTMLInputElement_def)

lemma insertAtCaret_no_selection:
  assumes "activeElement doc = Some el" and "kind el = HTMLInputElement TypeOther"
  shows "\<exists>e d. insertAtCaret assigned t doc = (Threw e, d)"
proof (cases "assigned el (value el @ t)")
  case (Inl e)
  with assms show ?thesis
    by (simp add: insertAtCaret_def instanceof_HTMLInputElement_def selectionStart_def
        selectionEnd_def selection_applies_def set_value_def substring_def substring_from_def)
next
  case (Inr v)
  with assms show ?thesis
    by (simp add: insertAtCaret_def instanceof_HTMLInputElement_def selectionStart_def
        selectionEnd_def selection_applies_def set_value_def substring_def substring_from_def
        setSelectionRange_def)
qed

lemma strip_newlines_id: "\<forall>c\<in>set v. c \<noteq> 0x0A \<and> c \<noteq> 0x0D \<Longrightarrow> strip_newlines v = v"
  by (simp add: strip_newlines_def)

lemma normalize_newlines_id: "\<forall>c\<in>set v. c \<noteq> 0x0D \<Longrightarrow> normalize_newlines v = v"
  by (induction v rule: normalize_newlines.induct) simp_all

lemma strip_whitespace_id:
  assumes "v = [] \<or> \<not> ascii_whitespace (hd v) \<and> \<not> ascii_whitespace (last v)"
  shows "strip_whitespace v = v"
proof (cases v rule: rev_cases)
  case Nil
  then show ?thesis by (simp add: strip_whitespace_def)
next
  case (snoc xs x)
  with assms have h: "\<not> ascii_whitespace (hd v)" and l: "\<not> ascii_whitespace x"
    by simp_all
  from snoc have "v \<noteq> []" by simp
  with h have 1: "dropWhile ascii_whitespace v = v"
    by (cases v) simp_all
  from l snoc have 2: "dropWhile ascii_whitespace (rev v) = rev v" by simp
  show ?thesis by (simp add: strip_whitespace_def 1 2)
qed

text \<open>
  Claim C10, as amended. \<open>handleTranscriptMessage\<close> inserts the text verbatim when
  \<open>interim\<close> is true and the text followed by exactly one space otherwise. When the
  focused element is an input or a textarea whose selection is \<open>[s, e]\<close> (inside its
  value), the call returns, the value afterwards is what the control makes of the old
  value up to \<open>s\<close>, then the payload, then the old value from \<open>e\<close> on (an input strips
  newlines, a \<open>url\<close> input also the white space at both ends, a textarea normalises
  newlines), and the caret (both ends of the selection) stands right after the payload
  or at the end of the value, whichever comes first. Where the control leaves the
  assembled string as it is, the value is that string and the caret stands right after
  the payload; it does so for a textarea when the string has no CR, for a \<open>text\<close>,
  \<open>search\<close>, \<open>tel\<close> or \<open>password\<close> input when it has no LF or CR, and for a \<open>url\<close>
  input when moreover it neither starts nor ends with white space. When no element is
  focused the document is left as it was; when the focused element is no input and no
  textarea, nothing changes unless it is editable, and then the payload goes to
  \<open>execCommand\<close>; on an input without a text selection the call throws.
\<close>

theorem handleTranscriptMessage_inserts:
  fixes msg :: "'a transcript_msg_scheme"
  shows
  "(interim msg = Some True \<longrightarrow> toInsert msg = text msg) \<and>
   (interim msg \<noteq> Some True \<longrightarrow> toInsert msg = text msg @ js '' '' \<and>
      length (toInsert msg) = length (text msg) + 1) \<and>
   (\<forall>el s e. activeElement doc = Some el \<and>
       (instanceof_HTMLInputElement el \<or> kind el = HTMLTextAreaElement) \<and>
       selectionStart el = Some s \<and> selectionEnd el = Some e \<and>
       s \<le> e \<and> e \<le> length (value el) \<longrightarrow>
       (\<exists>el'. handleTranscriptMessage assigned msg doc =
                (Returned, doc\<lparr>activeElement := Some el',
                               dispatched := dispatched doc @ [js ''input'']\<rparr>) \<and>
             value el' = sanitize (kind el) (take s (value el) @ toInsert msg @ drop e (value el)) \<and>
             selectionStart el' = Some (min (s + length (toInsert msg)) (length (value el'))) \<and>
             selectionEnd el' = Some (min (s + length (toInsert msg)) (length (value el'))) \<and>
             kind el' = kind el \<and> contenteditable el' = contenteditable el \<and>
             (sanitize (kind el) (take s (value el) @ toInsert msg @ drop e (value el))
                = take s (value el) @ toInsert msg @ drop e (value el) \<longrightarrow>
                value el' = take s (value el) @ toInsert msg @ drop e (value el) \<and>
                selectionStart el' = Some (s + length (toInsert msg)) \<and>
                selectionEnd el' = Some (s + length (toInsert msg)) \<and>
                s + length (toInsert msg) = length (take s (value el) @ toInsert msg)))) \<and>
   (\<forall>v. (\<forall>c\<in>set v. c \<noteq> 0x0D) \<longrightarrow> sanitize HTMLTextAreaElement v = v) \<and>
   (\<forall>v t. (\<forall>c\<in>set v. c \<noteq> 0x0A \<and> c \<noteq> 0x0D) \<and> t \<noteq> TypeUrl \<longrightarrow>
      sanitize (HTMLInputElement t) v = v) \<and>
   (\<forall>v. (\<forall>c\<in>set v. c \<noteq> 0x0A \<and> c \<noteq> 0x0D) \<and>
      (v = [] \<or> \<not> ascii_whitespace (hd v) \<and> \<not> ascii_whitespace (last v)) \<longrightarrow>
      sanitize (HTMLInputElement TypeUrl) v = v) \<and>
   (activeElement doc = None \<longrightarrow> handleTranscriptMessage assigned msg doc = (Returned, doc)) \<and>
   (\<forall>el. activeElement doc = Some el \<and> kind el = OtherElement \<longrightarrow>
      handleTranscriptMessage assigned msg doc =
        (Returned,
         if contenteditable el = Some (js '''') \<or> contenteditable el = Some (js ''true'')
         then doc\<lparr>execCommands := execCommands doc @ [(js ''insertText'', toInsert msg)]\<rparr>
         else doc)) \<and>
   (\<forall>el. activeElement doc = Some el \<and> kind el = HTMLInputElement TypeOther \<longrightarrow>
      (\<exists>x d. handleTranscriptMessage assigned msg doc = (Threw x, d)))"
proof (intro conjI allI impI)
  fix el s e
  assume a: "activeElement doc = Some el \<and>
       (instanceof_HTMLInputElement el \<or> kind el = HTMLTextAreaElement) \<and>
       selectionStart el = Some s \<and> selectionEnd el = Some e \<and>
       s \<le> e \<and> e \<le> length (value el)"
  then have ap: "selection_applies el"
    by (auto simp: selectionStart_def split: if_splits)
  with a have s: "s = selection_start el" and e: "e = selection_end el"
    by (simp_all add: selectionStart_def selectionEnd_def)
  let ?x = "take s (value el) @ toInsert msg @ drop e (value el)"
  let ?v = "sanitize (kind el) ?x"
  let ?c = "min (s + length (toInsert msg)) (length ?v)"
  let ?el' = "el\<lparr>value := ?v, selection_start := ?c, selection_end := ?c\<rparr>"
  from a have act: "activeElement doc = Some el" by simp
  have r: "handleTranscriptMessage assigned msg doc =
      (Returned, doc\<lparr>activeElement := Some ?el',
         dispatched := dispatched doc @ [js ''input'']\<rparr>)"
    unfolding handleTranscriptMessage_def s e
    by (rule insertAtCaret_text_control [OF act ap])
  from a have sl: "s \<le> length (value el)" by simp
  have len: "s + length (toInsert msg) \<le> length ?x" and
    pre: "s + length (toInsert msg) = length (take s (value el) @ toInsert msg)"
    using sl by simp_all
  have "value ?el' = ?v \<and>
        selectionStart ?el' = Some (min (s + length (toInsert msg)) (length (value ?el'))) \<and>
        selectionEnd ?el' = Some (min (s + length (toInsert msg)) (length (value ?el'))) \<and>
        kind ?el' = kind el \<and> contenteditable ?el' = contenteditable el \<and>
        (?v = ?x \<longrightarrow>
           value ?el' = ?x \<and>
           selectionStart ?el' = Some (s + length (toInsert msg)) \<and>
           selectionEnd ?el' = Some (s + length (toInsert msg)) \<and>
           s + length (toInsert msg) = length (take s (value el) @ toInsert msg))"
    using ap len pre
    by (simp add: selectionStart_def selectionEnd_def selection_applies_def min_absorb1)
  with r show "\<exists>el'. handleTranscriptMessage assigned msg doc =
                (Returned, doc\<lparr>activeElement := Some el',
                               dispatched := dispatched doc @ [js ''input'']\<rparr>) \<and>
             value el' = sanitize (kind el) (take s (value el) @ toInsert msg @ drop e (value el)) \<and>
             selectionStart el' = Some (min (s + length (toInsert msg)) (length (value el'))) \<and>
             selectionEnd el' = Some (min (s + length (toInsert msg)) (length (value el'))) \<and>
             kind el' = kind el \<and> contenteditable el' = contenteditable el \<and>
             (sanitize (kind el) (take s (value el) @ toInsert msg @ drop e (value el))
                = take s (value el) @ toInsert msg @ drop e (value el) \<longrightarrow>
                value el' = take s (value el) @ toInsert msg @ drop e (value el) \<and>
                selectionStart el' = Some (s + length (toInsert msg)) \<and>
                selectionEnd el' = Some (s + length (toInsert msg)) \<and>
                s + length (toInsert msg) = length (take s (value el) @ toInsert msg))"
    by (intro exI [of _ ?el']) blast
next
  fix v :: jsstring
  assume "\<forall>c\<in>set v. c \<noteq> 0x0D"
  then show "sanitize HTMLTextAreaElement v = v"
    by (simp add: sanitize_def normalize_newlines_id)
next
  fix v :: jsstring and t
  assume "(\<forall>c\<in>set v. c \<noteq> 0x0A \<and> c \<noteq> 0x0D) \<and> t \<noteq> TypeUrl"
  then show "sanitize (HTMLInputElement t) v = v"
    by (cases t) (simp_all add: sanitize_def strip_newlines_id)
next
  fix v :: jsstring
  assume "(\<forall>c\<in>set v. c \<noteq> 0x0A \<and> c \<noteq> 0x0D) \<and>
      (v = [] \<or> \<not> ascii_whitespace (hd v) \<and> \<not> ascii_whitespace (last v))"
  then show "sanitize (HTMLInputElement TypeUrl) v = v"
    by (simp add: sanitize_def strip_newlines_id strip_whitespace_id)
next
  fix el
  assume "activeElement doc = Some el \<and> kind el = OtherElement"
  then show "handleTranscriptMessage assigned msg doc =
        (Returned,
         if contenteditable el = Some (js '''') \<or> contenteditable el = Some (js ''true'')
         then doc\<lparr>execCommands := execCommands doc @ [(js ''insertText'', toInsert msg)]\<rparr>
         else doc)"
    by (simp add: handleTranscriptMessage_def insertAtCaret_other)
next
  fix el
  assume "activeElement doc = Some el \<and> kind el = HTMLInputElement TypeOther"
  then show "\<exists>x d. handleTranscriptMessage assigned msg doc = (Threw x, d)"
    by (simp add: handleTranscriptMessage_def insertAtCaret_no_selection)
qed (simp_all add: toInsert_def handleTranscriptMessage_def insertAtCaret_no_focus)

lemmas dom_eval = handleTranscriptMessage_def insertAtCaret_def toInsert_def set_value_def
  setSelectionRange_def selectionStart_def selectionEnd_def selection_applies_def
  selectionStart_defined_def instanceof_HTMLInputElement_def substring_def substring_from_def
  sanitize_def strip_newlines_def strip_whitespace_def ascii_whitespace_def js_def Let_def

text \<open>
  A \<open>url\<close> input holding \<open>http://x\<close> with the caret at its end, and the final transcript
  \<open>abc\<close>: the payload is \<open>abc\<close> and a space, the input drops the space, and the caret
  stands at 11, the end of the value, not at 12. A textarea holding \<open>a\<close> and an interim
  transcript with a CR LF pair: the pair becomes one LF.
\<close>

theorem handleTranscriptMessage_sanitized:
  "handleTranscriptMessage (\<lambda>el v. Inl InvalidStateError)
     \<lparr>interim = Some False, text = js ''abc''\<rparr>
     \<lparr>activeElement = Some \<lparr>kind = HTMLInputElement TypeUrl, contenteditable = None,
        value = js ''http://x'', selection_start = 8, selection_end = 8\<rparr>,
      dispatched = [], execCommands = []\<rparr>
   = (Returned,
      \<lparr>activeElement = Some \<lparr>kind = HTMLInputElement TypeUrl, contenteditable = None,
         value = js ''http://xabc'', selection_start = 11, selection_end = 11\<rparr>,
       dispatched = [js ''input''], execCommands = []\<rparr>) \<and>
   take 8 (js ''http://x'') @ toInsert \<lparr>interim = Some False, text = js ''abc''\<rparr>
     @ drop 8 (js ''http://x'') = js ''http://xabc '' \<and>
   handleTranscriptMessage (\<lambda>el v. Inl InvalidStateError)
     \<lparr>interim = Some True, text = [0x62, 0x0D, 0x0A, 0x63]\<rparr>
     \<lparr>activeElement = Some \<lparr>kind = HTMLTextAreaElement, contenteditable = None,
        value = js ''a'', selection_start = 1, selection_end = 1\<rparr>,
      dispatched = [], execCommands = []\<rparr>
   = (Returned,
      \<lparr>activeElement = Some \<lparr>kind = HTMLTextAreaElement, contenteditable = None,
         value = [0x61, 0x62, 0x0A, 0x63], selection_start = 4, selection_end = 4\<rparr>,
       dispatched = [js ''input''], execCommands = []\<rparr>)"
  by (simp add: dom_eval)

text \<open>
  The theorem at a concrete document: a text input holding \<open>hello world\<close> with the blank
  selected, and the final transcript \<open>abc\<close>.
\<close>

theorem handleTranscriptMessage_inserts_witness:
  "fst (handleTranscriptMessage (\<lambda>el v. Inl InvalidStateError)
     \<lparr>interim = Some False, text = js ''abc''\<rparr>
     \<lparr>activeElement = Some \<lparr>kind = HTMLInputElement TypeText, contenteditable = None,
        value = js ''hello world'', selection_start = 5, selection_end = 6\<rparr>,
      dispatched = [], execCommands = []\<rparr>) = Returned \<and>
   map_option value (activeElement (snd
     (handleTranscriptMessage (\<lambda>el v. Inl InvalidStateError)
       \<lparr>interim = Some False, text = js ''abc''\<rparr>
       \<lparr>activeElement = Some \<lparr>kind = HTMLInputElement TypeText, contenteditable = None,
          value = js ''hello world'', selection_start = 5, selection_end = 6\<rparr>,
        dispatched = [], execCommands = []\<rparr>))) = Some (js ''helloabc world'') \<and>
   map_option selectionStart (activeElement (snd
     (handleTranscriptMessage (\<lambda>el v. Inl InvalidStateError)
       \<lparr>interim = Some False, text = js ''abc''\<rparr>
       \<lparr>activeElement = Some \<lparr>kind = HTMLInputElement TypeText, contenteditable = None,
          value = js ''hello world'', selection_start = 5, selection_end = 6\<rparr>,
        dispatched = [], execCommands = []\<rparr>))) = Some (Some 9)"
proof -
  let ?a = "\<lambda>(el :: element) (v :: jsstring). (Inl InvalidStateError :: exn + jsstring)"
  let ?el = "\<lparr>kind = HTMLInputElement TypeText, contenteditable = None,
        value = js ''hello world'', selection_start = 5, selection_end = 6\<rparr>"
  let ?doc = "\<lparr>activeElement = Some ?el, dispatched = [], execCommands = []\<rparr>"
  let ?msg = "\<lparr>interim = Some False, text = js ''abc''\<rparr>"
  let ?x = "take 5 (value ?el) @ toInsert ?msg @ drop 6 (value ?el)"
  note t = handleTranscriptMessage_inserts [of ?msg ?doc ?a]
  have pre: "activeElement ?doc = Some ?el \<and>
       (instanceof_HTMLInputElement ?el \<or> kind ?el = HTMLTextAreaElement) \<and>
       selectionStart ?el = Some 5 \<and> selectionEnd ?el = Some 6 \<and>
       (5::nat) \<le> 6 \<and> 6 \<le> length (value ?el)"
    by (simp add: instanceof_HTMLInputElement_def selectionStart_def selectionEnd_def
        selection_applies_def)
  have "interim ?msg \<noteq> Some True" by simp
  with t have "toInsert ?msg = text ?msg @ js '' ''" by blast
  then have ins: "toInsert ?msg = js ''abc ''"
    by (simp add: js_def)
  have x: "?x = js ''helloabc world''"
    by (simp add: ins) (simp add: js_def)
  have "(\<forall>c\<in>set ?x. c \<noteq> 0x0A \<and> c \<noteq> 0x0D) \<and> TypeText \<noteq> TypeUrl"
    unfolding x by (simp add: js_def)
  with t have san: "sanitize (HTMLInputElement TypeText) ?x = ?x"
    by blast
  from t pre
  obtain el' where r: "handleTranscriptMessage ?a ?msg ?doc =
        (Returned, ?doc\<lparr>activeElement := Some el',
                        dispatched := dispatched ?doc @ [js ''input'']\<rparr>)"
      and imp: "sanitize (kind ?el) ?x = ?x \<longrightarrow>
                value el' = ?x \<and>
                selectionStart el' = Some (5 + length (toInsert ?msg)) \<and>
                selectionEnd el' = Some (5 + length (toInsert ?msg)) \<and>
                5 + length (toInsert ?msg) = length (take 5 (value ?el) @ toInsert ?msg)"
    by blast
  from san have "sanitize (kind ?el) ?x = ?x" by simp
  with imp have v: "value el' = ?x" and c: "selectionStart el' = Some (5 + length (toInsert ?msg))"
    by blast+
  from v x have v': "value el' = js ''helloabc world''" by simp
  from c ins have c': "selectionStart el' = Some 9" by simp
  show ?thesis
    unfolding r using v' c' by simp
qed

section \<open>Properties of the relay address\<close>

lemma replace_trailing_slash_eq:
  "replace_trailing_slash s = (if s \<noteq> [] \<and> last s = 0x2F then butlast s else s)"
  by (induction s) auto

lemma replace_trailing_slash_snoc:
  "replace_trailing_slash (s @ [0x2F]) = s"
  by (simp add: replace_trailing_slash_eq)

lemma unreserved_not_surrogate:
  "unreserved c \<Longrightarrow> \<not> lead_surrogate c \<and> \<not> trail_surrogate c"
  by (auto simp: unreserved_def lead_surrogate_def trail_surrogate_def Let_def)

lemma prepend_Inl [simp]: "prepend p r = Inl e \<longleftrightarrow> r = Inl e"
  by (cases r) (auto simp: prepend_def)

lemma prepend_Inr [simp]: "prepend p r = Inr s \<longleftrightarrow> (\<exists>t. r = Inr t \<and> s = p @ t)"
  by (cases r) (auto simp: prepend_def)

lemma encodeURIComponent_exn: "encodeURIComponent s = Inl e \<Longrightarrow> e = URIError"
proof (induction s rule: encodeURIComponent.induct)
  case 1
  then show ?case by simp
next
  case (2 c r)
  show ?case
  proof (cases "unreserved c")
    case True
    with 2 show ?thesis by simp
  next
    case nu: False
    show ?thesis
    proof (cases "lead_surrogate c")
      case True
      with nu 2 show ?thesis by (cases r) (simp_all split: if_splits)
    next
      case False
      with nu 2 show ?thesis by (simp split: if_splits)
    qed
  qed
qed

lemma encodeURIComponent_returns_iff:
  "(\<exists>t. encodeURIComponent s = Inr t) \<longleftrightarrow> isWellFormed s"
proof (induction s rule: encodeURIComponent.induct)
  case 1
  then show ?case by simp
next
  case (2 c r)
  show ?case
  proof (cases "unreserved c")
    case True
    with 2 unreserved_not_surrogate [of c] show ?thesis by simp
  next
    case nu: False
    show ?thesis
    proof (cases "lead_surrogate c")
      case True
      with nu 2 show ?thesis by (cases r) simp_all
    next
      case False
      with nu 2 show ?thesis by simp
    qed
  qed
qed

lemma encodeURIComponent_throws_iff:
  "encodeURIComponent s = Inl URIError \<longleftrightarrow> \<not> isWellFormed s"
  using encodeURIComponent_returns_iff [of s] encodeURIComponent_exn [of s]
  by (cases "encodeURIComponent s") auto

lemma js_Nil: "js [] = []" and js_Cons: "js (c # cs) = word_of_nat (of_char c) # js cs"
  by (simp_all add: js_def)

lemmas enc_eval = unreserved_def lead_surrogate_def trail_surrogate_def escape_def utf8_def
  percent_def hex_digit_def prepend_def pair_code_point_def js_def

text \<open>
  Claim C8, as amended. For every \<open>SessionInfo\<close> whose token is well formed,
  \<open>buildRelayWsUrl\<close> returns the relay address with one trailing slash removed when
  there is one, then \<open>/s/\<close>, the session identifier as it is, \<open>?t=\<close> and the
  percent-encoded token. For a token with an unpaired surrogate it throws \<open>URIError\<close>
  and returns nothing.
\<close>

theorem buildRelayWsUrl_shape:
  "(isWellFormed (token info) \<longrightarrow>
      (\<exists>t. encodeURIComponent (token info) = Inr t \<and>
           buildRelayWsUrl info =
             Inr ((if relayUrl info \<noteq> [] \<and> last (relayUrl info) = 0x2F
                   then butlast (relayUrl info) else relayUrl info)
                  @ js ''/s/'' @ sessionId info @ js ''?t='' @ t))) \<and>
   (\<not> isWellFormed (token info) \<longrightarrow> buildRelayWsUrl info = Inl URIError)"
proof (intro conjI impI)
  assume "isWellFormed (token info)"
  then obtain t where t: "encodeURIComponent (token info) = Inr t"
    using encodeURIComponent_returns_iff by blast
  then show "\<exists>t. encodeURIComponent (token info) = Inr t \<and>
           buildRelayWsUrl info =
             Inr ((if relayUrl info \<noteq> [] \<and> last (relayUrl info) = 0x2F
                   then butlast (relayUrl info) else relayUrl info)
                  @ js ''/s/'' @ sessionId info @ js ''?t='' @ t)"
    by (simp add: buildRelayWsUrl_def replace_trailing_slash_eq)
next
  assume "\<not> isWellFormed (token info)"
  then have "encodeURIComponent (token info) = Inl URIError"
    by (simp add: encodeURIComponent_throws_iff)
  then show "buildRelayWsUrl info = Inl URIError"
    by (simp add: buildRelayWsUrl_def)
qed

text \<open>
  The claim as stated speaks of every \<open>SessionInfo\<close>; for this one the call
  throws.
\<close>

theorem buildRelayWsUrl_throws: "buildRelayWsUrl \<lparr>sessionId = js ''abc'', token = [0xD800],
     relayUrl = js ''wss://relay.example'', expiresAt = 0\<rparr> = Inl URIError"
  by (simp add: buildRelayWsUrl_def enc_eval)

lemma enc_ab: "encodeURIComponent (js ''a b'') = Inr (js ''a%20b'')"
  by (simp add: enc_eval)

theorem buildRelayWsUrl_shape_witness:
  "isWellFormed (js ''a b'') \<and>
   buildRelayWsUrl \<lparr>sessionId = js ''abc'', token = js ''a b'',
     relayUrl = js ''wss://r.io/'', expiresAt = 0\<rparr> = Inr (js ''wss://r.io/s/abc?t=a%20b'')"
proof -
  let ?info = "\<lparr>sessionId = js ''abc'', token = js ''a b'',
     relayUrl = js ''wss://r.io/'', expiresAt = 0\<rparr>"
  have wf: "isWellFormed (token ?info)"
    by (simp add: enc_eval)
  with buildRelayWsUrl_shape [of ?info]
  obtain t where "encodeURIComponent (token ?info) = Inr t"
    and "buildRelayWsUrl ?info =
             Inr ((if relayUrl ?info \<noteq> [] \<and> last (relayUrl ?info) = 0x2F
                   then butlast (relayUrl ?info) else relayUrl ?info)
                  @ js ''/s/'' @ sessionId ?info @ js ''?t='' @ t)"
    by blast
  moreover from this(1) have "t = js ''a%20b''" by (simp add: enc_ab)
  ultimately have "buildRelayWsUrl ?info = Inr (js ''wss://r.io/s/abc?t=a%20b'')"
    by (simp add: js_def)
  with wf show ?thesis by simp
qed

lemma replace_trailing_slashes:
  "replace_trailing_slash (u @ replicate (Suc k) 0x2F) = u @ replicate k 0x2F"
proof -
  have "u @ replicate (Suc k) 0x2F = (u @ replicate k 0x2F) @ [0x2F]"
    by (simp add: replicate_append_same)
  then show ?thesis
    by (simp only: replace_trailing_slash_snoc)
qed

text \<open>
  Claim C9, as amended. When the relay address does not end in a slash, appending one
  slash leaves the outcome of \<open>buildRelayWsUrl\<close> unchanged. Of two or more appended
  slashes exactly one is removed, and the address returned differs from the one for
  the bare relay address whenever the token is well formed.
\<close>

theorem buildRelayWsUrl_trailing_slash:
  "(relayUrl info = [] \<or> last (relayUrl info) \<noteq> 0x2F) \<longrightarrow>
     buildRelayWsUrl (info\<lparr>relayUrl := relayUrl info @ js ''/''\<rparr>) = buildRelayWsUrl info \<and>
     (\<forall>k\<ge>2. replace_trailing_slash (relayUrl info @ replicate k 0x2F)
               = relayUrl info @ replicate (k - 1) 0x2F \<and>
             (isWellFormed (token info) \<longrightarrow>
                buildRelayWsUrl (info\<lparr>relayUrl := relayUrl info @ replicate k 0x2F\<rparr>)
                  \<noteq> buildRelayWsUrl info))"
proof (intro impI conjI allI)
  assume a: "relayUrl info = [] \<or> last (relayUrl info) \<noteq> 0x2F"
  then have keep: "replace_trailing_slash (relayUrl info) = relayUrl info"
    by (auto simp: replace_trailing_slash_eq)
  have one: "replace_trailing_slash (relayUrl info @ js ''/'') = relayUrl info"
    using replace_trailing_slash_snoc [of "relayUrl info"] by (simp add: js_def)
  show "buildRelayWsUrl (info\<lparr>relayUrl := relayUrl info @ js ''/''\<rparr>) = buildRelayWsUrl info"
    by (simp add: buildRelayWsUrl_def one keep)
  fix k :: nat
  assume k: "2 \<le> k"
  then obtain j where j: "k = Suc j"
    by (cases k) auto
  show strip: "replace_trailing_slash (relayUrl info @ replicate k 0x2F)
               = relayUrl info @ replicate (k - 1) 0x2F"
    unfolding j by (simp only: replace_trailing_slashes diff_Suc_1)
  assume "isWellFormed (token info)"
  then obtain t where t: "encodeURIComponent (token info) = Inr t"
    using encodeURIComponent_returns_iff by blast
  let ?rest = "js ''/s/'' @ sessionId info @ js ''?t='' @ t"
  have "length ((relayUrl info @ replicate (k - 1) 0x2F) @ ?rest)
      \<noteq> length (relayUrl info @ ?rest)"
    using k by simp
  then have ne: "(relayUrl info @ replicate (k - 1) 0x2F) @ ?rest \<noteq> relayUrl info @ ?rest"
    by metis
  have l: "buildRelayWsUrl (info\<lparr>relayUrl := relayUrl info @ replicate k 0x2F\<rparr>)
      = Inr ((relayUrl info @ replicate (k - 1) 0x2F) @ ?rest)"
    by (simp add: buildRelayWsUrl_def strip t prepend_def)
  have r: "buildRelayWsUrl info = Inr (relayUrl info @ ?rest)"
    by (simp add: buildRelayWsUrl_def keep t prepend_def)
  show "buildRelayWsUrl (info\<lparr>relayUrl := relayUrl info @ replicate k 0x2F\<rparr>)
                  \<noteq> buildRelayWsUrl info"
    unfolding l r using ne by simp
qed

text \<open>
  With a token that cannot be encoded both calls throw \<open>URIError\<close>, so the
  outcomes of the claim as stated do not differ.
\<close>

theorem buildRelayWsUrl_slashes_same_outcome: "buildRelayWsUrl \<lparr>sessionId = js ''abc'', token = [0xD800],
     relayUrl = js ''wss://r.io//'', expiresAt = 0\<rparr> =
    buildRelayWsUrl \<lparr>sessionId = js ''abc'', token = [0xD800],
     relayUrl = js ''wss://r.io'', expiresAt = 0\<rparr>"
  by (simp add: buildRelayWsUrl_def enc_eval)

theorem buildRelayWsUrl_trailing_slash_witness:
  "last (js ''wss://r.io'') \<noteq> 0x2F \<and>
   buildRelayWsUrl \<lparr>sessionId = js ''abc'', token = js ''a b'',
       relayUrl = js ''wss://r.io/'', expiresAt = 0\<rparr>
     = buildRelayWsUrl \<lparr>sessionId = js ''abc'', token = js ''a b'',
       relayUrl = js ''wss://r.io'', expiresAt = 0\<rparr> \<and>
   buildRelayWsUrl \<lparr>sessionId = js ''abc'', token = js ''a b'',
       relayUrl = js ''wss://r.io//'', expiresAt = 0\<rparr>
     \<noteq> buildRelayWsUrl \<lparr>sessionId = js ''abc'', token = js ''a b'',
       relayUrl = js ''wss://r.io'', expiresAt = 0\<rparr>"
proof -
  let ?info = "\<lparr>sessionId = js ''abc'', token = js ''a b'',
       relayUrl = js ''wss://r.io'', expiresAt = 0\<rparr>"
  have h: "relayUrl ?info = [] \<or> last (relayUrl ?info) \<noteq> 0x2F"
    by (simp add: js_def)
  have wf: "isWellFormed (token ?info)"
    by (simp add: enc_eval)
  have two: "(2::nat) \<le> 2" by simp
  from buildRelayWsUrl_trailing_slash [of ?info] h
  have one: "buildRelayWsUrl (?info\<lparr>relayUrl := relayUrl ?info @ js ''/''\<rparr>)
               = buildRelayWsUrl ?info"
    and many: "\<forall>k\<ge>2. isWellFormed (token ?info) \<longrightarrow>
                buildRelayWsUrl (?info\<lparr>relayUrl := relayUrl ?info @ replicate k 0x2F\<rparr>)
                  \<noteq> buildRelayWsUrl ?info"
    by blast+
  from many two wf
  have "buildRelayWsUrl (?info\<lparr>relayUrl := relayUrl ?info @ replicate 2 0x2F\<rparr>)
                  \<noteq> buildRelayWsUrl ?info"
    by blast
  moreover have "relayUrl ?info @ replicate 2 0x2F = js ''wss://r.io//''"
    by (simp add: js_def numeral_2_eq_2)
  moreover have "relayUrl ?info @ js ''/'' = js ''wss://r.io/''"
    by (simp add: js_def)
  moreover have "last (js ''wss://r.io'') \<noteq> 0x2F"
    by (simp add: js_def)
  ultimately show ?thesis using one by simp
qed

section \<open>Properties of the popup\<close>

lemma connectRelay_session: "session (fst (connectRelay thrown info st)) = session st"
  by (simp add: connectRelay_def Let_def split: sum.splits option.splits)

lemma createSession_session:
  "session (fst (createSession env st)) = Some info \<Longrightarrow>
     session st = Some info \<or> expiresAt info = env_now env + 30 * 60 * 1000"
  unfolding createSession_def Let_def failed_to_create_def
  by (auto split: settled.splits if_splits session_data.splits sum.splits
      simp: connectRelay_session)

lemma onmessage_session: "session (fst (onmessage parsed now tabs st)) = session st"
  by (simp add: onmessage_def split: option.splits sum.splits)

lemma step_session:
  assumes "session (fst (step ev st)) = Some info"
  shows "session st = Some info \<or>
     (\<exists>env. ev = CreateSession env \<and> expiresAt info = env_now env + 30 * 60 * 1000)"
proof (cases ev)
  case (CreateSession env)
  with assms createSession_session [of env st info] show ?thesis by auto
next
  case EndSession
  with assms show ?thesis by (simp add: endSession_def)
next
  case (WsMessage parsed now tabs)
  with assms show ?thesis by (simp add: onmessage_session)
qed (use assms in auto)

lemma run_session:
  "session (run evs st) = Some info \<Longrightarrow>
     session st = Some info \<or>
     (\<exists>env. CreateSession env \<in> set evs \<and> expiresAt info = env_now env + 30 * 60 * 1000)"
proof (induction evs arbitrary: st)
  case Nil
  then show ?case by simp
next
  case (Cons ev evs)
  from Cons.prems have "session (run evs (fst (step ev st))) = Some info" by simp
  from Cons.IH [OF this] show ?case
  proof
    assume "session (fst (step ev st)) = Some info"
    from step_session [OF this] show ?thesis by auto
  next
    assume "\<exists>env. CreateSession env \<in> set evs \<and> expiresAt info = env_now env + 30 * 60 * 1000"
    then show ?thesis by auto
  qed
qed

text \<open>
  Claim C5. There is one time to live, between 30 and 60 minutes, such that the
  session held by the popup after any sequence of events was stored by a
  \<open>createSession\<close> of that sequence and expires that long after the clock reading
  of its creation; and whatever session is present after an event is either the
  very record that was there before, \<open>expiresAt\<close> included, or one this event
  created.
\<close>

theorem session_expiresAt_fixed:
  "\<exists>ttl. 30 * 60 * 1000 \<le> ttl \<and> ttl \<le> 60 * 60 * 1000 \<and>
     (\<forall>evs base info. session (run evs (initial base)) = Some info \<longrightarrow>
        (\<exists>env. CreateSession env \<in> set evs \<and> expiresAt info = env_now env + ttl)) \<and>
     (\<forall>ev st info. session (fst (step ev st)) = Some info \<longrightarrow>
        session st = Some info \<or>
        (\<exists>env. ev = CreateSession env \<and> expiresAt info = env_now env + ttl))"
proof (intro exI [of _ "30 * 60 * 1000"] conjI allI impI)
  fix evs base info
  assume "session (run evs (initial base)) = Some info"
  from run_session [OF this]
  show "\<exists>env. CreateSession env \<in> set evs \<and> expiresAt info = env_now env + 30 * 60 * 1000"
    by (simp add: initial_def)
next
  fix ev st info
  assume "session (fst (step ev st)) = Some info"
  from step_session [OF this]
  show "session st = Some info \<or>
        (\<exists>env. ev = CreateSession env \<and> expiresAt info = env_now env + 30 * 60 * 1000)" .
qed simp_all

theorem session_expiresAt_fixed_witness:
  "\<exists>ttl. 30 * 60 * 1000 \<le> ttl \<and> ttl \<le> 60 * 60 * 1000 \<and>
     map_option expiresAt (session (run
       [CreateSession \<lparr>env_fetch = Fulfilled (Response True 201
            (Fulfilled (SessionData (js ''abc'') (js ''tok'') None))),
          env_now = 1000, env_qr = Fulfilled (js ''qr''), env_ws = None\<rparr>,
        WsOpen]
       (initial (js ''wss://r.io'')))) = Some (1000 + ttl)"
proof -
  let ?env = "\<lparr>env_fetch = Fulfilled (Response True 201
            (Fulfilled (SessionData (js ''abc'') (js ''tok'') None))),
          env_now = 1000, env_qr = Fulfilled (js ''qr''), env_ws = None\<rparr>"
  let ?evs = "[CreateSession ?env, WsOpen]"
  let ?st = "run ?evs (initial (js ''wss://r.io''))"
  have url: "\<exists>u. pairingUrl (js ''en-US'') (js ''gemini-2.5-pro'')
      \<lparr>sessionId = js ''abc'', token = js ''tok'', relayUrl = js ''wss://r.io'',
       expiresAt = 1000 + 30 * 60 * 1000\<rparr> = Inr u"
    by (simp add: pairingUrl_def append_encoded_def enc_eval)
  have tok: "\<exists>u. encodeURIComponent (js ''tok'') = Inr u"
    by (simp add: enc_eval)
  have "\<exists>info. session ?st = Some info"
    using url tok
    by (auto simp: initial_def createSession_def connectRelay_def Let_def prepend_def)
  then obtain info where info: "session ?st = Some info" ..
  from session_expiresAt_fixed obtain ttl where
    lo: "30 * 60 * 1000 \<le> ttl" and hi: "ttl \<le> 60 * 60 * 1000" and
    tr: "\<forall>evs base info. session (run evs (initial base)) = Some info \<longrightarrow>
        (\<exists>env. CreateSession env \<in> set evs \<and> expiresAt info = env_now env + ttl)"
    by blast
  from tr info obtain env where "CreateSession env \<in> set ?evs"
    and e: "expiresAt info = env_now env + ttl" by blast
  then have "env = ?env" by simp
  with e have "expiresAt info = 1000 + ttl" by simp
  with info lo hi show ?thesis by auto
qed




section \<open>Properties of the pairing address\<close>

lemma unat_small: "n < 65536 \<Longrightarrow> unat (word_of_nat n :: code_unit) = n"
  by (simp add: unat_of_nat take_bit_nat_eq_self del: of_nat_add)

lemma of_nat_unat_cu: "word_of_nat (unat (c :: code_unit)) = c"
  by simp

lemma unat_cu_bound: "unat (c :: code_unit) < 65536"
  using unsigned_less [of c, where ?'a = nat] by simp

lemma unat_hex_digit:
  "d < 16 \<Longrightarrow> unat (hex_digit d) = (if d < 10 then 48 + d else 55 + d)"
  unfolding hex_digit_def by (simp add: unat_small del: of_nat_add)

lemma hex_value_hex_digit: "d < 16 \<Longrightarrow> hex_value (hex_digit d) = Some d"
  by (simp add: hex_value_def unat_hex_digit Let_def)

lemma octets_percent:
  "b < 256 \<Longrightarrow> octets (percent b @ t) = map_option (Cons (Octet b)) (octets t)"
proof -
  assume b: "b < 256"
  then have "b div 16 < 16" and "b mod 16 < 16" by auto
  then have "hex_value (hex_digit (b div 16)) = Some (b div 16)"
    and "hex_value (hex_digit (b mod 16)) = Some (b mod 16)"
    by (simp_all add: hex_value_hex_digit)
  then show ?thesis by (simp add: percent_def)
qed

lemma utf8_bounded: "cp < 0x110000 \<Longrightarrow> \<forall>b\<in>set (utf8 cp). b < 256"
  by (auto simp: utf8_def)

lemma octets_percents:
  "\<forall>b\<in>set bs. b < 256 \<Longrightarrow>
   octets (concat (map percent bs) @ t) = map_option ((@) (map Octet bs)) (octets t)"
proof (induction bs)
  case Nil
  show ?case by (simp add: option.map_ident)
next
  case (Cons b bs)
  then show ?case
    by (simp add: octets_percent option.map_comp comp_def)
qed

lemma octets_escape:
  "cp < 0x110000 \<Longrightarrow>
   octets (escape cp @ t) = map_option ((@) (map Octet (utf8 cp))) (octets t)"
  unfolding escape_def by (rule octets_percents) (rule utf8_bounded)

lemma unreserved_not_percent: "unreserved c \<Longrightarrow> c \<noteq> 0x25"
  by (auto simp: unreserved_def Let_def)

lemma pair_code_point_bound:
  "lead_surrogate hi \<Longrightarrow> trail_surrogate lo \<Longrightarrow>
     0x10000 \<le> pair_code_point hi lo \<and> pair_code_point hi lo < 0x110000"
  by (auto simp: pair_code_point_def lead_surrogate_def trail_surrogate_def)

lemma octets_encodeURIComponent:
  "encodeURIComponent s = Inr t \<Longrightarrow> octets t = Some (items s)"
proof (induction s arbitrary: t rule: encodeURIComponent.induct)
  case 1
  then show ?case by simp
next
  case (2 c r)
  show ?case
  proof (cases "unreserved c")
    case True
    with 2 show ?thesis
      by (auto simp: unreserved_not_percent)
  next
    case nu: False
    show ?thesis
    proof (cases "lead_surrogate c")
      case ld: True
      with nu "2.prems" obtain d r' where r: "r = d # r'" and tr: "trail_surrogate d"
        by (cases r) (auto split: if_splits)
      with nu ld "2.prems" obtain t' where t': "encodeURIComponent r' = Inr t'"
        and t: "t = escape (pair_code_point c d) @ t'"
        by auto
      from "2.IH"(2) [OF nu ld r tr t'] have "octets t' = Some (items r')" .
      moreover have "pair_code_point c d < 0x110000"
        using pair_code_point_bound [OF ld tr] by simp
      ultimately show ?thesis
        using nu ld r by (simp add: t octets_escape)
    next
      case nl: False
      with nu "2.prems" have nt: "\<not> trail_surrogate c"
        by (auto split: if_splits)
      with nu nl "2.prems" obtain t' where t': "encodeURIComponent r = Inr t'"
        and t: "t = escape (unat c) @ t'"
        by auto
      from "2.IH"(3) [OF nu nl nt t'] have "octets t' = Some (items r)" .
      moreover have "unat c < 0x110000"
        using unat_cu_bound [of c] by simp
      ultimately show ?thesis
        using nu nl by (simp add: t octets_escape)
    qed
  qed
qed

lemma split2: "(cp div 64) * 64 + cp mod 64 = (cp::nat)"
  by simp

lemma split3: "(cp div 4096) * 4096 + ((cp div 64) mod 64) * 64 + cp mod 64 = (cp::nat)"
proof -
  define q where "q = cp div 64"
  have "cp div 4096 = q div 64"
    unfolding q_def by (simp add: div_mult2_eq [symmetric])
  moreover have "q div 64 * 4096 + q mod 64 * 64 = q * 64"
    using div_mult_mod_eq [of q 64] by linarith
  moreover have "q * 64 + cp mod 64 = cp"
    unfolding q_def by simp
  ultimately show ?thesis
    unfolding q_def [symmetric] by simp
qed

lemma split4:
  "(cp div 262144) * 262144 + ((cp div 4096) mod 64) * 4096 + ((cp div 64) mod 64) * 64
     + cp mod 64 = (cp::nat)"
proof -
  define p where "p = cp div 4096"
  have "cp div 262144 = p div 64"
    unfolding p_def by (simp add: div_mult2_eq [symmetric])
  moreover have "p div 64 * 262144 + p mod 64 * 4096 = p * 4096"
    using div_mult_mod_eq [of p 64] by linarith
  ultimately have "(cp div 262144) * 262144 + ((cp div 4096) mod 64) * 4096 = cp div 4096 * 4096"
    unfolding p_def [symmetric] by simp
  then show ?thesis
    using split3 [of cp] by simp
qed

lemma utf16_one:
  assumes "cp < 0x80"
  shows "utf16 (map Octet (utf8 cp) @ r) = map_option (Cons (word_of_nat cp)) (utf16 r)"
  using assms by (simp add: utf8_def)

lemma utf16_two:
  assumes "0x80 \<le> cp" and "cp < 0x800"
  shows "utf16 (map Octet (utf8 cp) @ r) = map_option (Cons (word_of_nat cp)) (utf16 r)"
proof -
  let ?b = "0xC0 + cp div 64" and ?b1 = "0x80 + cp mod 64"
  have u: "utf8 cp = [?b, ?b1]" using assms by (simp add: utf8_def)
  have b: "\<not> ?b < 0x80" "0xC2 \<le> ?b" "?b < 0xE0" using assms by simp_all
  have c: "continuation ?b1" by (simp add: continuation_def)
  have v: "(?b - 0xC0) * 64 + (?b1 - 0x80) = cp" by simp
  show ?thesis
    unfolding u using b c by (simp del: of_nat_add)
qed

lemma utf16_three:
  assumes "0x800 \<le> cp" and "cp < 0x10000" and "\<not> (0xD800 \<le> cp \<and> cp \<le> 0xDFFF)"
  shows "utf16 (map Octet (utf8 cp) @ r) = map_option (Cons (word_of_nat cp)) (utf16 r)"
proof -
  let ?b = "0xE0 + cp div 4096" and ?b1 = "0x80 + (cp div 64) mod 64" and ?b2 = "0x80 + cp mod 64"
  have u: "utf8 cp = [?b, ?b1, ?b2]" using assms by (simp add: utf8_def)
  have b: "\<not> ?b < 0x80" "\<not> (0xC2 \<le> ?b \<and> ?b < 0xE0)" "0xE0 \<le> ?b" "?b < 0xF0"
    using assms by simp_all
  have c: "continuation ?b1" "continuation ?b2" by (simp_all add: continuation_def)
  have v: "(?b - 0xE0) * 4096 + (?b1 - 0x80) * 64 + (?b2 - 0x80) = cp"
    using split3 [of cp] by simp
  show ?thesis
    unfolding u using b c assms by (simp add: split3 Let_def del: of_nat_add)
qed

lemma utf16_bmp:
  assumes "cp < 0x10000" and "\<not> (0xD800 \<le> cp \<and> cp \<le> 0xDFFF)"
  shows "utf16 (map Octet (utf8 cp) @ r) = map_option (Cons (word_of_nat cp)) (utf16 r)"
proof (cases "cp < 0x80")
  case True
  then show ?thesis by (rule utf16_one)
next
  case ge: False
  show ?thesis
  proof (cases "cp < 0x800")
    case True
    with ge show ?thesis by (intro utf16_two) simp_all
  next
    case False
    with assms show ?thesis by (intro utf16_three) simp_all
  qed
qed

lemma pair_split:
  assumes "lead_surrogate hi" and "trail_surrogate lo"
  shows "word_of_nat (0xD800 + (pair_code_point hi lo - 0x10000) div 0x400) = hi"
    and "word_of_nat (0xDC00 + (pair_code_point hi lo - 0x10000) mod 0x400) = lo"
proof -
  define h where "h = unat hi - 0xD800"
  define l where "l = unat lo - 0xDC00"
  have l: "l < 0x400" and uh: "unat hi = 0xD800 + h" and ul: "unat lo = 0xDC00 + l"
    using assms by (auto simp: l_def h_def lead_surrogate_def trail_surrogate_def)
  have p: "pair_code_point hi lo - 0x10000 = h * 0x400 + l"
    by (simp add: pair_code_point_def h_def l_def)
  have "(h * 0x400 + l) div 0x400 = h" and "(h * 0x400 + l) mod 0x400 = l"
    using l by simp_all
  then have "0xD800 + (pair_code_point hi lo - 0x10000) div 0x400 = unat hi"
    and "0xDC00 + (pair_code_point hi lo - 0x10000) mod 0x400 = unat lo"
    unfolding p uh ul by simp_all
  then show "word_of_nat (0xD800 + (pair_code_point hi lo - 0x10000) div 0x400) = hi"
    and "word_of_nat (0xDC00 + (pair_code_point hi lo - 0x10000) mod 0x400) = lo"
    by (simp_all only: of_nat_unat_cu)
qed

lemma utf16_four:
  assumes "0x10000 \<le> cp" and "cp < 0x110000"
  shows "utf16 (map Octet (utf8 cp) @ r) =
     map_option (\<lambda>s. word_of_nat (0xD800 + (cp - 0x10000) div 0x400)
                    # word_of_nat (0xDC00 + (cp - 0x10000) mod 0x400) # s) (utf16 r)"
proof -
  let ?b = "0xF0 + cp div 262144" and ?b1 = "0x80 + (cp div 4096) mod 64"
  and ?b2 = "0x80 + (cp div 64) mod 64" and ?b3 = "0x80 + cp mod 64"
  have u: "utf8 cp = [?b, ?b1, ?b2, ?b3]" using assms by (simp add: utf8_def)
  have b: "\<not> ?b < 0x80" "\<not> (0xC2 \<le> ?b \<and> ?b < 0xE0)" "\<not> (0xE0 \<le> ?b \<and> ?b < 0xF0)"
    "0xF0 \<le> ?b" "?b < 0xF5"
    using assms by simp_all
  have c: "continuation ?b1" "continuation ?b2" "continuation ?b3"
    by (simp_all add: continuation_def)
  show ?thesis
    unfolding u using b c assms by (simp add: split4 Let_def del: of_nat_add)
qed

lemma utf16_pair:
  assumes "lead_surrogate hi" and "trail_surrogate lo"
  shows "utf16 (map Octet (utf8 (pair_code_point hi lo)) @ r) =
     map_option (\<lambda>s. hi # lo # s) (utf16 r)"
  using utf16_four [of "pair_code_point hi lo" r] pair_code_point_bound [OF assms]
  by (simp only: pair_split [OF assms])

lemma utf16_items: "isWellFormed s \<Longrightarrow> utf16 (items s) = Some s"
proof (induction s rule: isWellFormed.induct)
  case 1
  show ?case by simp
next
  case (2 c r)
  show ?case
  proof (cases "lead_surrogate c")
    case ld: True
    with "2.prems" obtain d r' where r: "r = d # r'" and tr: "trail_surrogate d"
      and wf: "isWellFormed r'"
      by (cases r) auto
    from "2.IH"(1) [OF ld r] tr wf have ih: "utf16 (items r') = Some r'" by simp
    have nu: "\<not> unreserved c" using ld unreserved_not_surrogate by blast
    show ?thesis
      using nu ld r by (simp add: utf16_pair [OF ld tr] ih)
  next
    case nl: False
    with "2.prems" have nt: "\<not> trail_surrogate c" and wf: "isWellFormed r" by auto
    from "2.IH"(2) [OF nl] nt wf have ih: "utf16 (items r) = Some r" by simp
    show ?thesis
    proof (cases "unreserved c")
      case True
      then show ?thesis by (simp add: ih)
    next
      case False
      have "unat c < 0x10000" using unat_cu_bound [of c] by simp
      moreover have "\<not> (0xD800 \<le> unat c \<and> unat c \<le> 0xDFFF)"
        using nl nt by (auto simp: lead_surrogate_def trail_surrogate_def)
      ultimately have "utf16 (map Octet (utf8 (unat c)) @ items r)
          = map_option (Cons (word_of_nat (unat c))) (utf16 (items r))"
        by (rule utf16_bmp)
      with False nl show ?thesis by (simp add: ih)
    qed
  qed
qed

lemma decode_encode:
  "encodeURIComponent s = Inr t \<Longrightarrow> decodeURIComponent t = Inr s"
proof -
  assume e: "encodeURIComponent s = Inr t"
  then have "isWellFormed s" using encodeURIComponent_returns_iff by blast
  then have "utf16 (items s) = Some s" by (rule utf16_items)
  with octets_encodeURIComponent [OF e] show ?thesis
    by (simp add: decodeURIComponent_def)
qed

lemma unreserved_not_delimiter: "unreserved c \<Longrightarrow> \<not> delimiter c"
  by (auto simp: unreserved_def delimiter_def Let_def)

lemma hex_digit_not_delimiter: "d < 16 \<Longrightarrow> \<not> delimiter (hex_digit d)"
proof
  assume d: "d < 16" and "delimiter (hex_digit d)"
  then have "unat (hex_digit d) \<in> {0x26, 0x3D, 0x3F}"
    by (auto simp: delimiter_def)
  with d show False
    by (simp add: unat_hex_digit split: if_splits)
qed

lemma percent_not_delimiter: "b < 256 \<Longrightarrow> \<forall>c\<in>set (percent b). \<not> delimiter c"
proof -
  assume "b < 256"
  then have "b div 16 < 16" and "b mod 16 < 16" by auto
  then show ?thesis
    by (simp add: percent_def hex_digit_not_delimiter) (simp add: delimiter_def)
qed

lemma escape_not_delimiter: "cp < 0x110000 \<Longrightarrow> \<forall>c\<in>set (escape cp). \<not> delimiter c"
  using utf8_bounded [of cp] percent_not_delimiter
  by (auto simp: escape_def)

lemma encodeURIComponent_not_delimiter:
  "encodeURIComponent s = Inr t \<Longrightarrow> \<forall>c\<in>set t. \<not> delimiter c"
proof (induction s arbitrary: t rule: encodeURIComponent.induct)
  case 1
  then show ?case by simp
next
  case (2 c r)
  show ?case
  proof (cases "unreserved c")
    case True
    with 2 show ?thesis
      by (auto simp: unreserved_not_delimiter)
  next
    case nu: False
    show ?thesis
    proof (cases "lead_surrogate c")
      case ld: True
      with nu "2.prems" obtain d r' where r: "r = d # r'" and tr: "trail_surrogate d"
        by (cases r) (auto split: if_splits)
      with nu ld "2.prems" obtain t' where t': "encodeURIComponent r' = Inr t'"
        and t: "t = escape (pair_code_point c d) @ t'"
        by auto
      from "2.IH"(2) [OF nu ld r tr t'] have "\<forall>c\<in>set t'. \<not> delimiter c" .
      moreover have "pair_code_point c d < 0x110000"
        using pair_code_point_bound [OF ld tr] by simp
      ultimately show ?thesis
        using escape_not_delimiter [of "pair_code_point c d"] by (auto simp: t)
    next
      case nl: False
      with nu "2.prems" have nt: "\<not> trail_surrogate c"
        by (auto split: if_splits)
      with nu nl "2.prems" obtain t' where t': "encodeURIComponent r = Inr t'"
        and t: "t = escape (unat c) @ t'"
        by auto
      from "2.IH"(3) [OF nu nl nt t'] have "\<forall>c\<in>set t'. \<not> delimiter c" .
      moreover have "unat c < 0x110000"
        using unat_cu_bound [of c] by simp
      ultimately show ?thesis
        using escape_not_delimiter [of "unat c"] by (auto simp: t)
    qed
  qed
qed

lemma split_on_append:
  "sep \<notin> set a \<Longrightarrow> split_on sep (a @ sep # b) = a # split_on sep b"
  by (induction a) auto

lemma key_value_pair:
  "0x3D \<notin> set k \<Longrightarrow> key_value (k @ 0x3D # v) = (k, v)"
  unfolding key_value_def by (induction k) auto

lemma search_after_question:
  "0x3F \<notin> set p \<Longrightarrow> search (p @ 0x3F # q) = q"
  unfolding search_def by (induction p) auto

lemma pairingUrl_Inr:
  assumes "pairingUrl lang mdl info = Inr u"
  obtains e1 e2 e3 e4 where
    "encodeURIComponent (sessionId info) = Inr e1"
    "encodeURIComponent (token info) = Inr e2"
    "encodeURIComponent lang = Inr e3"
    "encodeURIComponent mdl = Inr e4"
    "u = js ''https://voice.paymore.app?s='' @ e1 @ js ''&t='' @ e2
           @ js ''&lang='' @ e3 @ js ''&model='' @ e4"
  using assms unfolding pairingUrl_def append_encoded_def
  by (auto split: sum.splits)

lemma createSession_qr:
  assumes "GenerateQr u n \<in> set (snd (createSession env st))"
  obtains info where "session (fst (createSession env st)) = Some info"
    and "pairingUrl (language st) (model st) info = Inr u"
  using assms unfolding createSession_def Let_def failed_to_create_def
  by (auto split: settled.splits if_splits session_data.splits sum.splits option.splits
      simp: connectRelay_def prepend_def)

lemma searchParam_pairing:
  assumes e1: "encodeURIComponent a = Inr e1" and e2: "encodeURIComponent b = Inr e2"
    and e3: "encodeURIComponent c = Inr e3" and e4: "encodeURIComponent d = Inr e4"
    and u: "u = js ''https://voice.paymore.app?s='' @ e1 @ js ''&t='' @ e2
           @ js ''&lang='' @ e3 @ js ''&model='' @ e4"
  shows "searchParam (js ''s'') u = Some a" and "searchParam (js ''t'') u = Some b"
proof -
  note nd = encodeURIComponent_not_delimiter
  have d1: "0x26 \<notin> set e1" "0x3D \<notin> set e1" and d2: "0x26 \<notin> set e2"
    using nd [OF e1] nd [OF e2] by (auto simp: delimiter_def)
  let ?rest = "js ''lang='' @ e3 @ js ''&model='' @ e4"
  let ?q = "(js ''s='' @ e1) @ 0x26 # ((js ''t='' @ e2) @ 0x26 # ?rest)"
  have "u = js ''https://voice.paymore.app'' @ 0x3F # ?q"
    by (simp add: u js_def)
  moreover have "search (js ''https://voice.paymore.app'' @ 0x3F # ?q) = ?q"
    by (rule search_after_question) (simp add: js_def)
  ultimately have s: "search u = ?q" by simp
  have "split_on 0x26 ?q = (js ''s='' @ e1) # split_on 0x26 ((js ''t='' @ e2) @ 0x26 # ?rest)"
    by (rule split_on_append) (use d1 in \<open>simp add: js_def\<close>)
  moreover have "split_on 0x26 ((js ''t='' @ e2) @ 0x26 # ?rest)
      = (js ''t='' @ e2) # split_on 0x26 ?rest"
    by (rule split_on_append) (use d2 in \<open>simp add: js_def\<close>)
  ultimately have sp: "split_on 0x26 (search u) =
      (js ''s='' @ e1) # (js ''t='' @ e2) # split_on 0x26 ?rest"
    by (simp only: s)
  have k1: "key_value (js ''s='' @ e1) = (js ''s'', e1)"
    using key_value_pair [of "js ''s''" e1] by (simp add: js_def)
  have k2: "key_value (js ''t='' @ e2) = (js ''t'', e2)"
    using key_value_pair [of "js ''t''" e2] by (simp add: js_def)
  have ne: "js ''s'' \<noteq> js ''t''" by (simp add: js_def)
  have m1: "map_of (map key_value (split_on 0x26 (search u))) (js ''s'') = Some e1"
    by (simp add: sp k1)
  have m2: "map_of (map key_value (split_on 0x26 (search u))) (js ''t'') = Some e2"
    using ne by (simp add: sp k1 k2)
  show "searchParam (js ''s'') u = Some a"
    by (simp add: searchParam_def m1 decode_encode [OF e1])
  show "searchParam (js ''t'') u = Some b"
    by (simp add: searchParam_def m2 decode_encode [OF e2])
qed

lemma pairingUrl_params:
  assumes "pairingUrl lang mdl info = Inr u"
  shows "searchParam (js ''s'') u = Some (sessionId info)"
    and "searchParam (js ''t'') u = Some (token info)"
proof -
  from assms obtain e1 e2 e3 e4 where
    "encodeURIComponent (sessionId info) = Inr e1"
    "encodeURIComponent (token info) = Inr e2"
    "encodeURIComponent lang = Inr e3"
    "encodeURIComponent mdl = Inr e4"
    "u = js ''https://voice.paymore.app?s='' @ e1 @ js ''&t='' @ e2
           @ js ''&lang='' @ e3 @ js ''&model='' @ e4"
    by (rule pairingUrl_Inr)
  from searchParam_pairing [OF this]
  show "searchParam (js ''s'') u = Some (sessionId info)"
    and "searchParam (js ''t'') u = Some (token info)"
    by simp_all
qed

text \<open>
  Claim C7. Whenever \<open>createSession\<close> gets as far as asking for a QR code, the address
  it hands to the generator is the pairing address of the session it has stored, and
  that address carries the identifier and the token of the session: its query
  parameters \<open>s\<close> and \<open>t\<close> decode to exactly these two strings, and no session with
  another identifier or another token has the same pairing address.
\<close>

theorem pairingUrl_encodes:
  "GenerateQr u n \<in> set (snd (createSession env st)) \<longrightarrow>
     (\<exists>info. session (fst (createSession env st)) = Some info \<and>
        pairingUrl (language st) (model st) info = Inr u \<and>
        searchParam (js ''s'') u = Some (sessionId info) \<and>
        searchParam (js ''t'') u = Some (token info) \<and>
        (\<forall>lang mdl info'. pairingUrl lang mdl (info' :: SessionInfo) = Inr u \<longrightarrow>
           sessionId info' = sessionId info \<and> token info' = token info))"
proof
  assume "GenerateQr u n \<in> set (snd (createSession env st))"
  then obtain info where i: "session (fst (createSession env st)) = Some info"
    and p: "pairingUrl (language st) (model st) info = Inr u"
    by (rule createSession_qr)
  note q = pairingUrl_params [OF p]
  have "sessionId info' = sessionId info \<and> token info' = token info"
    if "pairingUrl lang mdl info' = Inr u" for lang mdl and info' :: SessionInfo
    using pairingUrl_params [OF that] q by simp
  with i p q
  show "\<exists>info. session (fst (createSession env st)) = Some info \<and>
        pairingUrl (language st) (model st) info = Inr u \<and>
        searchParam (js ''s'') u = Some (sessionId info) \<and>
        searchParam (js ''t'') u = Some (token info) \<and>
        (\<forall>lang mdl info'. pairingUrl lang mdl (info' :: SessionInfo) = Inr u \<longrightarrow>
           sessionId info' = sessionId info \<and> token info' = token info)"
    by blast
qed

theorem pairingUrl_encodes_witness:
  "GenerateQr (js ''https://voice.paymore.app?s=abc&t=a%20b&lang=en-US&model=gemini-2.5-pro'') 256
     \<in> set (snd (createSession
           \<lparr>env_fetch = Fulfilled (Response True 201
              (Fulfilled (SessionData (js ''abc'') (js ''a b'') None))),
            env_now = 1000, env_qr = Fulfilled (js ''qr''), env_ws = None\<rparr>
           (initial (js ''wss://r.io'')))) \<and>
   searchParam (js ''s'')
     (js ''https://voice.paymore.app?s=abc&t=a%20b&lang=en-US&model=gemini-2.5-pro'')
     = Some (js ''abc'') \<and>
   searchParam (js ''t'')
     (js ''https://voice.paymore.app?s=abc&t=a%20b&lang=en-US&model=gemini-2.5-pro'')
     = Some (js ''a b'')"
proof -
  let ?env = "\<lparr>env_fetch = Fulfilled (Response True 201
              (Fulfilled (SessionData (js ''abc'') (js ''a b'') None))),
            env_now = 1000, env_qr = Fulfilled (js ''qr''), env_ws = None\<rparr>"
  let ?st = "initial (js ''wss://r.io'')"
  let ?u = "js ''https://voice.paymore.app?s=abc&t=a%20b&lang=en-US&model=gemini-2.5-pro''"
  let ?info = "\<lparr>sessionId = js ''abc'', token = js ''a b'', relayUrl = js ''wss://r.io'',
       expiresAt = 1000 + 30 * 60 * 1000\<rparr>"
  have run: "createSession ?env ?st =
     (?st\<lparr>status := js ''Waiting for phone...'', session := Some ?info,
          qrDataUrl := Some (js ''qr''),
          wsRef := Some (js ''wss://r.io/s/abc?t=a%20b'')\<rparr>,
      [Fetch (js ''wss://r.io/sessions'') (js ''en-US'') (js ''gemini-2.5-pro''),
       GenerateQr ?u 256,
       NewWebSocket (js ''wss://r.io/s/abc?t=a%20b'')])"
    by (simp add: createSession_def connectRelay_def Let_def initial_def pairingUrl_def
        append_encoded_def enc_eval)
  then have m: "GenerateQr ?u 256 \<in> set (snd (createSession ?env ?st))"
    by simp
  with pairingUrl_encodes [of ?u 256 ?env ?st]
  obtain info where i: "session (fst (createSession ?env ?st)) = Some info"
    and s: "searchParam (js ''s'') ?u = Some (sessionId info)"
    and t: "searchParam (js ''t'') ?u = Some (token info)"
    by blast
  from i have "info = ?info"
    unfolding run by simp
  with s t have "searchParam (js ''s'') ?u = Some (js ''abc'')"
    and "searchParam (js ''t'') ?u = Some (js ''a b'')"
    by simp_all
  with m show ?thesis
    by blast
qed

section \<open>Properties of the relay service\<close>

lemma subseq_drop_oldest: "subseq (drop_oldest_interim q) q"
  by (induction q) auto

lemma finals_drop_oldest: "filter is_final (drop_oldest_interim q) = filter is_final q"
proof (induction q)
  case Nil
  show ?case by simp
next
  case (Cons x q)
  then show ?case by (cases x) auto
qed

lemma interim_not_final: "is_interim m \<Longrightarrow> \<not> is_final m"
  by (cases m) auto

lemma fifo_later:
  assumes "joined_at mb \<le> length B" and "fifo B mb"
  shows "fifo (B @ [m]) mb"
  using assms by (simp add: fifo_def subseq_rev_drop_many)

lemma fifo_append:
  assumes "joined_at mb \<le> length B" and "fifo B mb"
  shows "fifo (B @ [m]) (mb\<lparr>outq := outq mb @ [m]\<rparr>)"
proof (cases "is_transcript m")
  case True
  let ?X = "filter is_transcript (written mb @ outq mb)"
  have "subseq (?X @ [m]) (drop (joined_at mb) B @ [m])"
    using assms(2) by (simp only: subseq_append fifo_def)
  moreover have "filter is_transcript (written mb @ outq mb @ [m]) = ?X @ [m]"
    using True by simp
  ultimately show ?thesis
    using assms(1) by (simp add: fifo_def)
next
  case False
  with assms show ?thesis
    by (simp add: fifo_def subseq_rev_drop_many)
qed

lemma fifo_shrink:
  assumes "fifo B mb" and "subseq q (outq mb)"
  shows "fifo B (mb\<lparr>outq := q\<rparr>)"
proof -
  from assms(2) have "subseq (written mb @ q) (written mb @ outq mb)"
    by (simp add: subseq_append')
  then have "subseq (filter is_transcript (written mb @ q))
      (filter is_transcript (written mb @ outq mb))"
    by (rule subseq_filter)
  with assms(1) show ?thesis
    unfolding fifo_def by (auto intro: subseq_order.trans)
qed

lemma member_inv_offer:
  assumes inv: "member_inv B mb" and rc: "receives mb"
  shows "member_inv (B @ [m]) (offer cap m mb)"
proof -
  from inv have j: "joined_at mb \<le> length B" and f: "fifo B mb"
    and k: "filter is_final (written mb @ outq mb) = filter is_final (drop (joined_at mb) B)"
    using rc by (simp_all add: member_inv_def finals_kept_def)
  consider (room) "length (outq mb) < cap"
    | (evict) "\<not> length (outq mb) < cap" "list_ex is_interim (outq mb)"
    | (skip) "\<not> length (outq mb) < cap" "\<not> list_ex is_interim (outq mb)" "is_interim m"
    | (overflow) "\<not> length (outq mb) < cap" "\<not> list_ex is_interim (outq mb)" "\<not> is_interim m"
    by blast
  then show ?thesis
  proof cases
    case room
    then have o: "offer cap m mb = mb\<lparr>outq := outq mb @ [m]\<rparr>"
      by (simp add: offer_def)
    show ?thesis
      unfolding o member_inv_def
      using j fifo_append [OF j f] k
      by (simp add: finals_kept_def)
  next
    case evict
    let ?q = "drop_oldest_interim (outq mb)"
    from evict have o: "offer cap m mb = mb\<lparr>outq := ?q @ [m]\<rparr>"
      by (simp add: offer_def)
    have "fifo B (mb\<lparr>outq := ?q\<rparr>)"
      using f subseq_drop_oldest by (rule fifo_shrink)
    then have "fifo (B @ [m]) (mb\<lparr>outq := ?q\<rparr>\<lparr>outq := outq (mb\<lparr>outq := ?q\<rparr>) @ [m]\<rparr>)"
      using j by (intro fifo_append) simp_all
    then have "fifo (B @ [m]) (mb\<lparr>outq := ?q @ [m]\<rparr>)" by simp
    then show ?thesis
      unfolding o member_inv_def
      using j k by (simp add: finals_kept_def finals_drop_oldest)
  next
    case skip
    then have o: "offer cap m mb = mb" by (simp add: offer_def)
    show ?thesis
      unfolding o member_inv_def
      using j fifo_later [OF j f] k skip(3)
      by (simp add: finals_kept_def interim_not_final)
  next
    case overflow
    then have o: "offer cap m mb = mb\<lparr>m_phase := Closing BackpressureOverflow\<rparr>"
      by (simp add: offer_def)
    have "fifo (B @ [m]) (mb\<lparr>m_phase := Closing BackpressureOverflow\<rparr>)"
      using fifo_later [OF j f, of m] by (simp add: fifo_def)
    then show ?thesis
      unfolding o member_inv_def using j by (simp add: finals_kept_def receives_def)
  qed
qed

lemma member_inv_skip:
  assumes "member_inv B mb" and "\<not> receives mb"
  shows "member_inv (B @ [m]) mb"
  using assms fifo_later [of mb B m]
  by (simp add: member_inv_def finals_kept_def)

lemma member_inv_flush: "member_inv B mb \<Longrightarrow> member_inv B (flush_one mb)"
  by (cases "outq mb")
     (simp_all add: flush_one_def member_inv_def fifo_def finals_kept_def receives_def)

lemma member_inv_phase: "member_inv B mb \<Longrightarrow> member_inv B (mb\<lparr>m_phase := Closing code\<rparr>)"
  by (simp add: member_inv_def fifo_def finals_kept_def receives_def)

lemma length_filter_map_same:
  "(\<And>x. x \<in> set xs \<Longrightarrow> P (h x) = P x) \<Longrightarrow>
     length (filter P (map h xs)) = length (filter P xs)"
  by (induction xs) auto

lemma room_inv_map:
  assumes inv: "room_inv r"
    and g: "\<And>c mb. (c, mb) \<in> set (members r) \<Longrightarrow>
              m_role (g c mb) = m_role mb \<and> member_inv B (g c mb)"
  shows "room_inv (r\<lparr>members := map (\<lambda>(c, mb). (c, g c mb)) (members r), broadcasts := B\<rparr>)"
proof -
  let ?ms = "map (\<lambda>(c, mb). (c, g c mb)) (members r)"
  have fst: "map fst ?ms = map fst (members r)"
    by (simp add: case_prod_unfold comp_def)
  have prod: "length (filter (\<lambda>(c, mb). m_role mb = Producer) ?ms)
      = length (filter (\<lambda>(c, mb). m_role mb = Producer) (members r))"
    by (rule length_filter_map_same) (use g in auto)
  have mem: "\<forall>(c, mb)\<in>set ?ms. member_inv B mb"
    using g by auto
  have d: "distinct (map fst ?ms)"
    unfolding fst using inv by (simp add: room_inv_def)
  have p: "length (filter (\<lambda>(c, mb). m_role mb = Producer) ?ms) \<le> 1"
    unfolding prod using inv by (simp add: room_inv_def producers_def)
  show ?thesis
    unfolding room_inv_def producers_def
    using d p mem by simp
qed

lemma room_inv_update:
  assumes inv: "room_inv r"
    and f: "\<And>mb. member_inv (broadcasts r) mb \<Longrightarrow>
              m_role (f mb) = m_role mb \<and> member_inv (broadcasts r) (f mb)"
  shows "room_inv (update_member c f r)"
proof -
  have "room_inv (r\<lparr>members := map (\<lambda>(c', mb). (c', if c' = c then f mb else mb)) (members r),
      broadcasts := broadcasts r\<rparr>)"
    using inv f by (intro room_inv_map) (auto simp: room_inv_def)
  then show ?thesis by (simp add: update_member_def)
qed

lemma room_inv_close: "room_inv r \<Longrightarrow> room_inv (close c code r)"
  unfolding close_def
  by (rule room_inv_update) (auto simp: member_inv_phase)

lemma offer_role: "m_role (offer cap m mb) = m_role mb"
  by (simp add: offer_def)

lemma room_inv_broadcast:
  assumes "room_inv r"
  shows "room_inv (broadcast cap m r)"
  unfolding broadcast_def
proof (rule room_inv_map [OF assms])
  fix c mb
  assume "(c, mb) \<in> set (members r)"
  with assms have "member_inv (broadcasts r) mb"
    by (auto simp: room_inv_def)
  then show "m_role (if receives mb then offer cap m mb else mb) = m_role mb \<and>
       member_inv (broadcasts r @ [m]) (if receives mb then offer cap m mb else mb)"
    by (simp add: offer_role member_inv_offer member_inv_skip)
qed

lemma room_inv_on_frame: "room_inv r \<Longrightarrow> room_inv (on_frame cap c fr now allowed r)"
  unfolding on_frame_def
  by (simp split: option.splits frame.splits client_message.splits
      add: room_inv_close room_inv_broadcast)

lemma room_inv_reject: "room_inv r \<Longrightarrow> room_inv (reject c code r)"
  by (simp add: room_inv_def reject_def producers_def)

lemma map_of_None_fst: "map_of ms c = None \<Longrightarrow> c \<notin> set (map fst ms)"
  by (simp add: map_of_eq_None_iff)

lemma room_inv_admit:
  assumes inv: "room_inv r" and fresh: "map_of (members r) c = None"
    and slot: "rl = Producer \<longrightarrow> producers r = []"
  shows "room_inv (r\<lparr>members := members r @
            [(c, \<lparr>m_role = rl, m_phase = Joined, outq = [Ready], written = [],
                  joined_at = length (broadcasts r)\<rparr>)]\<rparr>)"
proof -
  let ?mb = "\<lparr>m_role = rl, m_phase = Joined, outq = [Ready], written = [],
                  joined_at = length (broadcasts r)\<rparr>"
  have d: "distinct (map fst (members r @ [(c, ?mb)]))"
    using inv map_of_None_fst [OF fresh] by (simp add: room_inv_def)
  have p: "length (filter (\<lambda>(c, mb). m_role mb = Producer) (members r @ [(c, ?mb)])) \<le> 1"
    using inv slot by (cases rl) (simp_all add: room_inv_def producers_def)
  have m: "member_inv (broadcasts r) ?mb"
    by (simp add: member_inv_def fifo_def finals_kept_def)
  show ?thesis
    unfolding room_inv_def producers_def
    using d p m inv by (simp add: room_inv_def)
qed

lemma room_inv_join: "room_inv r \<Longrightarrow> room_inv (join mac sid c rl cred now r)"
  unfolding join_def
  by (simp split: verdict.splits add: room_inv_reject room_inv_admit)

lemma room_inv_flush: "room_inv r \<Longrightarrow> room_inv (update_member c flush_one r)"
proof (rule room_inv_update)
  fix mb
  assume "member_inv (broadcasts r) mb"
  then show "m_role (flush_one mb) = m_role mb \<and> member_inv (broadcasts r) (flush_one mb)"
    by (cases "outq mb") (simp_all add: member_inv_flush, simp_all add: flush_one_def)
qed

lemma length_filter_filter: "length (filter Q (filter P xs)) \<le> length (filter Q xs)"
  by (induction xs) (auto simp: le_SucI)

lemma room_inv_torn_down:
  assumes "room_inv r"
  shows "room_inv (r\<lparr>members := filter P (members r)\<rparr>)"
proof -
  have "length (filter (\<lambda>(c, mb). m_role mb = Producer) (filter P (members r)))
      \<le> length (filter (\<lambda>(c, mb). m_role mb = Producer) (members r))"
    by (rule length_filter_filter)
  with assms show ?thesis
    by (auto simp: room_inv_def producers_def distinct_map_filter)
qed

lemma room_inv_expire:
  assumes "room_inv r"
  shows "room_inv (r\<lparr>members := map (\<lambda>(c, mb). (c, if m_phase mb = Joined
                                     then mb\<lparr>m_phase := Closing SessionExpired\<rparr> else mb))
                      (members r)\<rparr>)"
proof -
  have "room_inv (r\<lparr>members := map (\<lambda>(c, mb). (c, if m_phase mb = Joined
                                     then mb\<lparr>m_phase := Closing SessionExpired\<rparr> else mb))
                      (members r), broadcasts := broadcasts r\<rparr>)"
    using assms by (intro room_inv_map) (auto simp: room_inv_def member_inv_phase)
  then show ?thesis by simp
qed

lemma room_inv_step: "room_inv r \<Longrightarrow> room_inv (room_step mac sid cap ev r)"
  by (cases ev)
     (simp_all add: room_inv_join room_inv_on_frame room_inv_flush room_inv_close
        room_inv_torn_down room_inv_expire)

lemma room_inv_empty: "room_inv empty_room"
  by (simp add: room_inv_def empty_room_def producers_def)

lemma room_inv_run: "room_inv r \<Longrightarrow> room_inv (run_room mac sid cap evs r)"
  by (induction evs arbitrary: r) (simp_all add: room_inv_step)

lemma same_core_update:
  "same_core r1 r2 \<Longrightarrow> same_core (update_member c f r1) (update_member c f r2)"
  by (simp add: same_core_def update_member_def)

lemma same_core_close: "same_core r1 r2 \<Longrightarrow> same_core (close c code r1) (close c code r2)"
  unfolding close_def by (rule same_core_update)

lemma same_core_broadcast:
  "same_core r1 r2 \<Longrightarrow> same_core (broadcast cap m r1) (broadcast cap m r2)"
  by (simp add: same_core_def broadcast_def)

lemma same_core_on_frame:
  assumes "same_core r1 r2"
  shows "same_core (on_frame cap c fr now allowed r1) (on_frame cap c fr now allowed r2)"
proof (cases "map_of (members r2) c")
  case None
  with assms show ?thesis by (simp add: on_frame_def same_core_def)
next
  case (Some mb)
  with assms have m: "map_of (members r1) c = Some mb" by (simp add: same_core_def)
  show ?thesis
  proof (cases "m_phase mb = Joined")
    case False
    with assms Some m show ?thesis by (simp add: on_frame_def)
  next
    case True
    show ?thesis
    proof (cases fr)
      case (Message msg)
      with assms Some m True show ?thesis
        by (cases msg) (simp_all add: on_frame_def same_core_broadcast)
    qed (use assms Some m True in \<open>simp_all add: on_frame_def same_core_close\<close>)
  qed
qed

lemma same_core_join:
  assumes "same_core r1 r2"
  shows "same_core (join mac sid c rl cred now r1) (join mac sid c rl cred now r2)"
proof (cases "verify mac now cred")
  case Invalid
  with assms show ?thesis by (simp add: join_def reject_def same_core_def)
next
  case (Valid s e)
  with assms show ?thesis by (simp add: join_def reject_def same_core_def producers_def)
qed

lemma step_depends:
  assumes "same_core r1 r2"
  shows "same_core (room_step mac sid cap ev r1) (room_step mac sid cap ev r2)"
proof (cases ev)
  case (Join c rl cred now)
  with assms show ?thesis by (simp add: same_core_join)
next
  case (Frame c fr now allowed)
  with assms show ?thesis by (simp add: same_core_on_frame)
next
  case (TornDown c)
  with assms show ?thesis by (simp add: same_core_def)
next
  case Expire
  with assms show ?thesis by (simp add: same_core_def)
qed (use assms in \<open>simp_all add: same_core_close same_core_update\<close>)

lemma run_depends:
  "same_core r1 r2 \<Longrightarrow>
     same_core (run_room mac sid cap evs r1) (run_room mac sid cap evs r2)"
  by (induction evs arbitrary: r1 r2) (simp_all add: step_depends)

lemma join_occupied:
  assumes "producers r \<noteq> []" and "map_of (members r) c = None"
  shows "members (join mac sid c Producer cred now r) = members r"
    and "broadcasts (join mac sid c Producer cred now r) = broadcasts r"
    and "rejected (join mac sid c Producer cred now r) = rejected r @
           [(c, case verify mac now cred of
                  Invalid \<Rightarrow> if expired mac now cred then SessionExpired else InvalidCredential
                | Valid s e \<Rightarrow> if s \<noteq> sid then SessionMismatch else ProducerSlotOccupied)]"
  using assms by (simp_all add: join_def reject_def split: verdict.splits)

text \<open>
  Claim C1. After any sequence of events a room holds at most one connection in the
  producer role. A further connection that asks for the producer role of an occupied
  room is turned away with a close code (\<open>ProducerSlotOccupied\<close> when its credential is
  good for the room): the connections of the room stay exactly as they were, and the
  connections and broadcasts after any later events are those the room would have had
  without the attempt.
\<close>

theorem room_single_producer:
  "length (producers (run_room mac sid cap evs empty_room)) \<le> 1 \<and>
   (\<forall>r c cred now.
      producers r \<noteq> [] \<and> map_of (members r) c = None \<longrightarrow>
        members (join mac sid c Producer cred now r) = members r \<and>
        rejected (join mac sid c Producer cred now r) = rejected r @
           [(c, case verify mac now cred of
                  Invalid \<Rightarrow> if expired mac now cred then SessionExpired else InvalidCredential
                | Valid s e \<Rightarrow> if s \<noteq> sid then SessionMismatch else ProducerSlotOccupied)] \<and>
        (\<forall>later.
           members (run_room mac sid cap later (join mac sid c Producer cred now r))
             = members (run_room mac sid cap later r) \<and>
           broadcasts (run_room mac sid cap later (join mac sid c Producer cred now r))
             = broadcasts (run_room mac sid cap later r)))"
proof (intro conjI allI impI)
  have "room_inv (run_room mac sid cap evs empty_room)"
    using room_inv_empty by (rule room_inv_run)
  then show "length (producers (run_room mac sid cap evs empty_room)) \<le> 1"
    by (simp add: room_inv_def)
next
  fix r c cred now later
  assume a: "producers r \<noteq> [] \<and> map_of (members r) c = None"
  then have occ: "producers r \<noteq> []" and fresh: "map_of (members r) c = None"
    by simp_all
  note j = join_occupied [OF occ fresh, of mac sid cred now]
  show "members (join mac sid c Producer cred now r) = members r" by (rule j(1))
  show "rejected (join mac sid c Producer cred now r) = rejected r @
           [(c, case verify mac now cred of
                  Invalid \<Rightarrow> if expired mac now cred then SessionExpired else InvalidCredential
                | Valid s e \<Rightarrow> if s \<noteq> sid then SessionMismatch else ProducerSlotOccupied)]"
    by (rule j(3))
  have "same_core (join mac sid c Producer cred now r) r"
    using j(1) j(2) by (simp add: same_core_def)
  from run_depends [OF this, of mac sid cap later]
  show "members (run_room mac sid cap later (join mac sid c Producer cred now r))
             = members (run_room mac sid cap later r)"
    and "broadcasts (run_room mac sid cap later (join mac sid c Producer cred now r))
             = broadcasts (run_room mac sid cap later r)"
    by (simp_all add: same_core_def)
qed

lemma broadcasts_close: "broadcasts (close c code r) = broadcasts r"
  by (simp add: close_def update_member_def)

lemma broadcasts_join: "broadcasts (join mac sid c rl cred now r) = broadcasts r"
  by (simp add: join_def reject_def split: verdict.splits)

lemma broadcasts_on_frame:
  "broadcasts (on_frame cap c fr now allowed r) = broadcasts r @ handled (Frame c fr now allowed) r"
proof (cases "map_of (members r) c")
  case None
  then show ?thesis
    by (simp add: on_frame_def handled_def split: frame.splits client_message.splits)
next
  case (Some mb)
  show ?thesis
  proof (cases fr)
    case (Message msg)
    with Some show ?thesis
      by (cases msg; cases "m_role mb")
         (simp_all add: on_frame_def handled_def broadcast_def)
  qed (use Some in \<open>simp_all add: on_frame_def handled_def broadcasts_close\<close>)
qed

lemma broadcasts_step:
  "broadcasts (room_step mac sid cap ev r) = broadcasts r @ handled ev r"
proof (cases ev)
  case (Frame c fr now allowed)
  then show ?thesis by (simp add: broadcasts_on_frame)
qed (simp_all add: handled_def broadcasts_join broadcasts_close update_member_def)

lemma offer_with_room:
  "length (outq mb) < cap \<Longrightarrow> offer cap m mb = mb\<lparr>outq := outq mb @ [m]\<rparr>"
  by (simp add: offer_def)

lemma lossless_alt:
  "lossless c r = (\<forall>mb. (c, mb) \<in> set (members r) \<and> receives mb \<longrightarrow> exact (broadcasts r) mb)"
  by (auto simp: lossless_def exact_def)

lemma exact_offer:
  assumes "exact B mb" and "length (outq mb) < cap" and "is_transcript m"
    and "joined_at mb \<le> length B"
  shows "exact (B @ [m]) (offer cap m mb)"
  using assms by (simp add: exact_def offer_with_room)

lemma exact_flush: "exact B (flush_one mb) = exact B mb"
  by (cases "outq mb") (simp_all add: exact_def flush_one_def)

lemma receives_flush: "receives (flush_one mb) = receives mb"
  by (cases "outq mb") (simp_all add: receives_def flush_one_def)

lemma receives_offer: "receives (offer cap m mb) \<Longrightarrow> receives mb"
  by (auto simp: receives_def offer_def split: if_splits)

lemma lossless_map:
  assumes l: "lossless c r"
    and g: "\<And>mb. (c, mb) \<in> set (members r) \<Longrightarrow> receives (g c mb) \<Longrightarrow>
              receives mb \<and> (exact (broadcasts r) mb \<longrightarrow> exact B (g c mb))"
  shows "lossless c (r\<lparr>members := map (\<lambda>(c', mb). (c', g c' mb)) (members r), broadcasts := B\<rparr>)"
  unfolding lossless_alt
proof (intro allI impI)
  fix mb'
  assume a: "(c, mb') \<in> set (members (r\<lparr>members := map (\<lambda>(c', mb). (c', g c' mb)) (members r),
                   broadcasts := B\<rparr>)) \<and> receives mb'"
  then obtain mb where m: "(c, mb) \<in> set (members r)" and e: "mb' = g c mb"
    by auto
  from a e have "receives (g c mb)" by simp
  from g [OF m this] l m have "exact B (g c mb)"
    by (auto simp: lossless_alt)
  with e show "exact (broadcasts (r\<lparr>members := map (\<lambda>(c', mb). (c', g c' mb)) (members r),
                   broadcasts := B\<rparr>)) mb'"
    by simp
qed

lemma lossless_update:
  assumes "lossless c r"
    and "\<And>mb. receives (f mb) \<Longrightarrow> receives mb \<and> (exact (broadcasts r) mb \<longrightarrow> exact (broadcasts r) (f mb))"
  shows "lossless c (update_member c0 f r)"
proof -
  have "lossless c (r\<lparr>members := map (\<lambda>(c', mb). (c', if c' = c0 then f mb else mb)) (members r),
      broadcasts := broadcasts r\<rparr>)"
    using assms by (intro lossless_map) auto
  then show ?thesis by (simp add: update_member_def)
qed

lemma lossless_close: "lossless c r \<Longrightarrow> lossless c (close c0 code r)"
  unfolding close_def
  by (rule lossless_update) (auto simp: receives_def exact_def split: if_splits)

lemma lossless_flush: "lossless c r \<Longrightarrow> lossless c (update_member c0 flush_one r)"
  by (rule lossless_update) (simp_all add: receives_flush exact_flush)

lemma lossless_join: "lossless c r \<Longrightarrow> lossless c (join mac sid c0 rl cred now r)"
  by (auto simp: join_def reject_def lossless_alt exact_def split: verdict.splits)

lemma lossless_broadcast:
  assumes l: "lossless c r" and inv: "room_inv r" and t: "is_transcript m"
    and room: "list_all (\<lambda>(c', mb). c' = c \<and> receives mb \<longrightarrow> length (outq mb) < cap) (members r)"
  shows "lossless c (broadcast cap m r)"
  unfolding broadcast_def
proof (rule lossless_map [OF l])
  fix mb
  assume m: "(c, mb) \<in> set (members r)"
    and r: "receives (if receives mb then offer cap m mb else mb)"
  then have rc: "receives mb" by (auto split: if_splits)
  from inv m have j: "joined_at mb \<le> length (broadcasts r)"
    by (auto simp: room_inv_def member_inv_def)
  from room m rc have "length (outq mb) < cap"
    by (auto simp: list_all_iff)
  with rc j t show "receives mb \<and>
      (exact (broadcasts r) mb \<longrightarrow>
       exact (broadcasts r @ [m]) (if receives mb then offer cap m mb else mb))"
    by (simp add: exact_offer)
qed

lemma lossless_on_frame:
  assumes l: "lossless c r" and inv: "room_inv r"
    and room: "handled (Frame c0 fr now allowed :: 'g room_event) r \<noteq> [] \<longrightarrow>
       list_all (\<lambda>(c', mb). c' = c \<and> receives mb \<longrightarrow> length (outq mb) < cap) (members r)"
  shows "lossless c (on_frame cap c0 fr now allowed r)"
proof (cases "map_of (members r) c0")
  case None
  with l show ?thesis by (simp add: on_frame_def)
next
  case (Some mb)
  show ?thesis
  proof (cases "m_phase mb = Joined")
    case False
    with Some l show ?thesis by (simp add: on_frame_def)
  next
    case True
    show ?thesis
    proof (cases fr)
      case (Message msg)
      show ?thesis
      proof (cases msg)
        case Hello
        with Some True Message l show ?thesis by (simp add: on_frame_def)
      next
        case (ClientTranscript i t ts)
        show ?thesis
        proof (cases "m_role mb = Producer \<and> allowed")
          case False
          with Some True Message ClientTranscript l show ?thesis
            by (cases "m_role mb") (auto simp: on_frame_def)
        next
          case p: True
          with Some True Message ClientTranscript
          have h: "handled (Frame c0 fr now allowed :: 'g room_event) r = [stamp now i t ts]"
            by (simp add: handled_def)
          then have "handled (Frame c0 fr now allowed :: 'g room_event) r \<noteq> []"
            by simp
          with room have rm: "list_all (\<lambda>(c', mb). c' = c \<and> receives mb \<longrightarrow> length (outq mb) < cap) (members r)"
            by blast
          have "is_transcript (stamp now i t ts)" by (simp add: stamp_def)
          from lossless_broadcast [OF l inv this rm]
          show ?thesis
            using Some True Message ClientTranscript p by (simp add: on_frame_def)
        qed
      qed
    qed (use Some True l in \<open>simp_all add: on_frame_def lossless_close\<close>)
  qed
qed

lemma lossless_step:
  assumes l: "lossless c r" and inv: "room_inv r"
    and room: "handled ev r \<noteq> [] \<longrightarrow>
       list_all (\<lambda>(c', mb). c' = c \<and> receives mb \<longrightarrow> length (outq mb) < cap) (members r)"
  shows "lossless c (room_step mac sid cap ev r)"
proof (cases ev)
  case (Join c0 rl cred now)
  with l show ?thesis by (simp add: lossless_join)
next
  case (Frame c0 fr now allowed)
  with l inv room show ?thesis by (simp add: lossless_on_frame)
next
  case (Written c0)
  with l show ?thesis by (simp add: lossless_flush)
next
  case (PeerClose c0)
  with l show ?thesis by (simp add: lossless_close)
next
  case (Escalate c0)
  with l show ?thesis by (simp add: lossless_close)
next
  case (TornDown c0)
  with l show ?thesis by (auto simp: lossless_alt)
next
  case Expire
  with l show ?thesis by (auto simp: lossless_alt receives_def)
qed

lemma lossless_run:
  "lossless c r \<Longrightarrow> room_inv r \<Longrightarrow> had_room mac sid cap c evs r \<Longrightarrow>
     lossless c (run_room mac sid cap evs r)"
proof (induction evs arbitrary: r)
  case Nil
  then show ?case by simp
next
  case (Cons ev evs)
  from Cons.prems have "lossless c (room_step mac sid cap ev r)"
    by (intro lossless_step) simp_all
  moreover from Cons.prems have "room_inv (room_step mac sid cap ev r)"
    by (simp add: room_inv_step)
  moreover from Cons.prems have "had_room mac sid cap c evs (room_step mac sid cap ev r)"
    by simp
  ultimately show ?case
    by (simp add: Cons.IH)
qed

lemma lossless_empty: "lossless c empty_room"
  by (simp add: lossless_def empty_room_def)

text \<open>
  Claim C2. After any sequence of events and for every connection of the room, however
  many there are, the transcripts written to it or queued for it are a subsequence of
  the broadcasts since it joined: they keep the order in which the producer's
  transcripts were handled, and none is repeated or invented. The broadcasts grow, event
  by event, by exactly the transcript the joined producer sent. A joined consumer whose
  queue had room at every broadcast has lost nothing: the transcripts written to it
  followed by those queued for it are exactly the broadcasts since it joined, those
  written are a prefix of them, and all of them once its queue is empty.
\<close>

theorem room_fifo:
  "(\<forall>(c, mb)\<in>set (members (run_room mac sid cap evs empty_room)).
      subseq (filter is_transcript (written mb @ outq mb))
        (drop (joined_at mb) (broadcasts (run_room mac sid cap evs empty_room))) \<and>
      subseq (filter is_transcript (written mb))
        (broadcasts (run_room mac sid cap evs empty_room))) \<and>
   (\<forall>ev r. broadcasts (room_step mac sid cap ev r) = broadcasts r @ handled ev r) \<and>
   (\<forall>(c, mb)\<in>set (members (run_room mac sid cap evs empty_room)).
      receives mb \<and> had_room mac sid cap c evs empty_room \<longrightarrow>
        filter is_transcript (written mb @ outq mb)
          = drop (joined_at mb) (broadcasts (run_room mac sid cap evs empty_room)) \<and>
        prefix (filter is_transcript (written mb))
          (drop (joined_at mb) (broadcasts (run_room mac sid cap evs empty_room))) \<and>
        (outq mb = [] \<longrightarrow>
           filter is_transcript (written mb)
             = drop (joined_at mb) (broadcasts (run_room mac sid cap evs empty_room))))"
proof (intro conjI allI)
  let ?R = "run_room mac sid cap evs empty_room"
  have inv: "room_inv ?R"
    using room_inv_empty by (rule room_inv_run)
  show "\<forall>(c, mb)\<in>set (members ?R).
      subseq (filter is_transcript (written mb @ outq mb))
        (drop (joined_at mb) (broadcasts ?R)) \<and>
      subseq (filter is_transcript (written mb)) (broadcasts ?R)"
  proof (intro ballI, clarify, intro conjI)
    fix c mb
    assume "(c, mb) \<in> set (members ?R)"
    with inv have "fifo (broadcasts ?R) mb"
      by (auto simp: room_inv_def member_inv_def)
    then show q: "subseq (filter is_transcript (written mb @ outq mb))
        (drop (joined_at mb) (broadcasts ?R))"
      by (simp add: fifo_def)
    have "subseq (filter is_transcript (written mb)) (filter is_transcript (written mb @ outq mb))"
      by (simp add: subseq_rev_drop_many)
    moreover have "subseq (drop (joined_at mb) (broadcasts ?R)) (broadcasts ?R)"
      using subseq_drop_many [of "drop (joined_at mb) (broadcasts ?R)"
          "drop (joined_at mb) (broadcasts ?R)" "take (joined_at mb) (broadcasts ?R)"]
      by simp
    ultimately show "subseq (filter is_transcript (written mb)) (broadcasts ?R)"
      using q by (blast intro: subseq_order.trans)
  qed
next
  fix ev :: "'a room_event" and r
  show "broadcasts (room_step mac sid cap ev r) = broadcasts r @ handled ev r"
    by (rule broadcasts_step)
next
  let ?R = "run_room mac sid cap evs empty_room"
  show "\<forall>(c, mb)\<in>set (members ?R).
      receives mb \<and> had_room mac sid cap c evs empty_room \<longrightarrow>
        filter is_transcript (written mb @ outq mb) = drop (joined_at mb) (broadcasts ?R) \<and>
        prefix (filter is_transcript (written mb)) (drop (joined_at mb) (broadcasts ?R)) \<and>
        (outq mb = [] \<longrightarrow>
           filter is_transcript (written mb) = drop (joined_at mb) (broadcasts ?R))"
  proof (intro ballI, clarify)
    fix c mb
    assume m: "(c, mb) \<in> set (members ?R)" and rc: "receives mb"
      and h: "had_room mac sid cap c evs empty_room"
    from lossless_empty room_inv_empty h have "lossless c ?R"
      by (rule lossless_run)
    with m rc have e: "filter is_transcript (written mb @ outq mb)
        = drop (joined_at mb) (broadcasts ?R)"
      by (auto simp: lossless_def)
    have "prefix (filter is_transcript (written mb)) (filter is_transcript (written mb @ outq mb))"
      by simp
    with e show "filter is_transcript (written mb @ outq mb) = drop (joined_at mb) (broadcasts ?R) \<and>
        prefix (filter is_transcript (written mb)) (drop (joined_at mb) (broadcasts ?R)) \<and>
        (outq mb = [] \<longrightarrow>
           filter is_transcript (written mb) = drop (joined_at mb) (broadcasts ?R))"
      by auto
  qed
qed

lemma keeps_drop_oldest:
  "filter (\<lambda>x. \<not> is_interim x) (drop_oldest_interim q) = filter (\<lambda>x. \<not> is_interim x) q"
  by (induction q) auto

lemma offer_cases:
  assumes "m_phase mb = Joined"
  shows "(m_phase (offer cap m mb) = Joined \<and>
          filter (\<lambda>x. \<not> is_interim x) (outq (offer cap m mb))
            = filter (\<lambda>x. \<not> is_interim x) (outq mb @ [m])) \<or>
         (m_phase (offer cap m mb) = Closing BackpressureOverflow \<and> \<not> is_interim m \<and>
          cap \<le> length (outq mb) \<and> \<not> list_ex is_interim (outq mb))"
  using assms by (simp add: offer_def keeps_drop_oldest)

lemma drop_oldest_at:
  "is_interim x \<Longrightarrow> \<not> list_ex is_interim pre \<Longrightarrow> drop_oldest_interim (pre @ x # post) = pre @ post"
  by (induction pre) auto

lemma offer_evicts:
  assumes "outq mb = pre @ x # post" and "is_interim x" and "\<not> list_ex is_interim pre"
    and "cap \<le> length (outq mb)"
  shows "offer cap m mb = mb\<lparr>outq := pre @ post @ [m]\<rparr>"
proof -
  from assms(1,2) have "list_ex is_interim (outq mb)"
    by (auto simp: list_ex_iff)
  with assms show ?thesis
    by (simp add: offer_def drop_oldest_at)
qed

text \<open>
  Claim C3. After any sequence of events, every final transcript broadcast since a
  joined consumer joined has been written to it or is still in its queue. Queueing a
  message on a joined connection either leaves it joined with every message that is
  not an interim transcript still queued, the new one included, or closes it with the
  backpressure code, which happens only for a message that is not an interim and a
  full queue without an interim. On a full queue that holds an interim transcript it is
  the oldest interim, the first one in the queue, that leaves: everything before it and
  everything after it stays in order, and the new message goes to the end. With room the
  message is appended, and an interim offered to a full queue without an interim is
  dropped.
\<close>

theorem finals_never_dropped:
  "(\<forall>(c, mb)\<in>set (members (run_room mac sid cap evs empty_room)).
      receives mb \<longrightarrow>
        filter is_final (written mb @ outq mb)
          = filter is_final (drop (joined_at mb)
              (broadcasts (run_room mac sid cap evs empty_room)))) \<and>
   (\<forall>mb m. m_phase mb = Joined \<longrightarrow>
      (m_phase (offer cap m mb) = Joined \<and>
       filter (\<lambda>x. \<not> is_interim x) (outq (offer cap m mb))
         = filter (\<lambda>x. \<not> is_interim x) (outq mb @ [m])) \<or>
      (m_phase (offer cap m mb) = Closing BackpressureOverflow \<and> \<not> is_interim m \<and>
       cap \<le> length (outq mb) \<and> \<not> list_ex is_interim (outq mb))) \<and>
   (\<forall>mb m pre x post.
      outq mb = pre @ x # post \<and> is_interim x \<and> \<not> list_ex is_interim pre \<and>
      cap \<le> length (outq mb) \<longrightarrow>
        offer cap m mb = mb\<lparr>outq := pre @ post @ [m]\<rparr>) \<and>
   (\<forall>mb m. length (outq mb) < cap \<longrightarrow> offer cap m mb = mb\<lparr>outq := outq mb @ [m]\<rparr>) \<and>
   (\<forall>mb m. cap \<le> length (outq mb) \<and> \<not> list_ex is_interim (outq mb) \<and> is_interim m \<longrightarrow>
      offer cap m mb = mb)"
proof (intro conjI allI impI)
  let ?R = "run_room mac sid cap evs empty_room"
  have inv: "room_inv ?R"
    using room_inv_empty by (rule room_inv_run)
  show "\<forall>(c, mb)\<in>set (members ?R).
      receives mb \<longrightarrow>
        filter is_final (written mb @ outq mb)
          = filter is_final (drop (joined_at mb) (broadcasts ?R))"
  proof (intro ballI, clarify)
    fix c mb
    assume "(c, mb) \<in> set (members ?R)" and "receives mb"
    with inv show "filter is_final (written mb @ outq mb)
          = filter is_final (drop (joined_at mb) (broadcasts ?R))"
      by (auto simp: room_inv_def member_inv_def finals_kept_def)
  qed
next
  fix mb :: member and m
  assume "m_phase mb = Joined"
  then show "(m_phase (offer cap m mb) = Joined \<and>
       filter (\<lambda>x. \<not> is_interim x) (outq (offer cap m mb))
         = filter (\<lambda>x. \<not> is_interim x) (outq mb @ [m])) \<or>
      (m_phase (offer cap m mb) = Closing BackpressureOverflow \<and> \<not> is_interim m \<and>
       cap \<le> length (outq mb) \<and> \<not> list_ex is_interim (outq mb))"
    by (rule offer_cases)
next
  fix mb :: member and m pre x post
  assume "outq mb = pre @ x # post \<and> is_interim x \<and> \<not> list_ex is_interim pre \<and>
      cap \<le> length (outq mb)"
  then have "outq mb = pre @ x # post" and "is_interim x" and "\<not> list_ex is_interim pre"
    and "cap \<le> length (outq mb)"
    by blast+
  then show "offer cap m mb = mb\<lparr>outq := pre @ post @ [m]\<rparr>"
    by (rule offer_evicts)
next
  fix mb :: member and m
  assume "length (outq mb) < cap"
  then show "offer cap m mb = mb\<lparr>outq := outq mb @ [m]\<rparr>"
    by (rule offer_with_room)
next
  fix mb :: member and m
  assume "cap \<le> length (outq mb) \<and> \<not> list_ex is_interim (outq mb) \<and> is_interim m"
  then show "offer cap m mb = mb"
    by (simp add: offer_def)
qed

text \<open>
  Claim C4. \<open>verify\<close> answers \<open>Invalid\<close> for a credential whose expiry is at or before
  the current time, for one whose signature does not match, and for a malformed one;
  an issued credential is invalid at the very instant of its expiry and valid before
  it.
\<close>

theorem verify_invalid:
  "(\<forall>s e g. e \<le> now \<longrightarrow> verify mac now (Signed s e g) = Invalid) \<and>
   (\<forall>s e g. g \<noteq> mac s e \<longrightarrow> verify mac now (Signed s e g) = Invalid) \<and>
   verify mac now Malformed = Invalid \<and>
   verify mac (t0 + ttl) (issue mac sid t0 ttl) = Invalid \<and>
   (now < t0 + ttl \<longrightarrow> verify mac now (issue mac sid t0 ttl) = Valid sid (t0 + ttl))"
  by (simp add: verify_def issue_def)

lemmas relay_eval = join_def verify_def issue_def on_frame_def broadcast_def offer_def
  receives_def stamp_def update_member_def flush_one_def close_def reject_def producers_def
  empty_room_def expired_def

lemma relay_trace: "run_room (\<lambda>s e. length s + nat e) ''abc'' 2
  [Join 1 Producer (issue (\<lambda>s e. length s + nat e) ''abc'' 0 100) 5,
   Join 2 Consumer (issue (\<lambda>s e. length s + nat e) ''abc'' 0 100) 6,
   Frame 1 (Message (ClientTranscript True ''h'' None)) 10 True,
   Frame 1 (Message (ClientTranscript True ''he'' None)) 11 True,
   Frame 1 (Message (ClientTranscript False ''hello'' (Some 3))) 12 True,
   Written 2,
   Frame 1 (Message (ClientTranscript False ''world'' None)) 13 True] empty_room
  = \<lparr>members =
    [(1, \<lparr>m_role = Producer, m_phase = Joined, outq = [Ready], written = [],
            joined_at = 0\<rparr>),
     (2, \<lparr>m_role = Consumer, m_phase = Joined,
            outq =
              [ServerTranscript False ''hello'' 3,
               ServerTranscript False ''world'' 13],
            written = [Ready], joined_at = 0\<rparr>)],
    rejected = [],
    broadcasts =
      [ServerTranscript True ''h'' 10, ServerTranscript True ''he'' 11,
       ServerTranscript False ''hello'' 3,
       ServerTranscript False ''world'' 13]\<rparr>"
  by (simp add: relay_eval)

theorem verify_invalid_witness:
  "verify (\<lambda>s e. length s + nat e) 100 (issue (\<lambda>s e. length s + nat e) ''abc'' 0 100) = Invalid \<and>
   verify (\<lambda>s e. length s + nat e) 99 (issue (\<lambda>s e. length s + nat e) ''abc'' 0 100)
     = Valid ''abc'' 100 \<and>
   verify (\<lambda>s e. length s + nat e) 5 (Signed ''abc'' 100 0) = Invalid"
proof -
  let ?mac = "\<lambda>s e. length s + nat e"
  note v = verify_invalid [of 99 ?mac 0 100 "''abc''"]
  note w = verify_invalid [of 5 ?mac 0 100 "''abc''"]
  have "(99::int) < 0 + 100" by simp
  with v have a: "verify ?mac 99 (issue ?mac ''abc'' 0 100) = Valid ''abc'' (0 + 100)"
    by blast
  from v have b: "verify ?mac (0 + 100) (issue ?mac ''abc'' 0 100) = Invalid"
    by blast
  have "(0::nat) \<noteq> ?mac ''abc'' 100" by simp
  with w have c: "verify ?mac 5 (Signed ''abc'' 100 0) = Invalid"
    by blast
  from a b c show ?thesis by simp
qed

theorem room_single_producer_witness:
  "producers (run_room (\<lambda>s e. length s + nat e) ''abc'' 2
       [Join 1 Producer (issue (\<lambda>s e. length s + nat e) ''abc'' 0 100) 5] empty_room) \<noteq> [] \<and>
   members (join (\<lambda>s e. length s + nat e) ''abc'' 2 Producer
       (issue (\<lambda>s e. length s + nat e) ''abc'' 0 100) 7
       (run_room (\<lambda>s e. length s + nat e) ''abc'' 2
         [Join 1 Producer (issue (\<lambda>s e. length s + nat e) ''abc'' 0 100) 5] empty_room))
     = [(1, \<lparr>m_role = Producer, m_phase = Joined, outq = [Ready], written = [],
             joined_at = 0\<rparr>)] \<and>
   rejected (join (\<lambda>s e. length s + nat e) ''abc'' 2 Producer
       (issue (\<lambda>s e. length s + nat e) ''abc'' 0 100) 7
       (run_room (\<lambda>s e. length s + nat e) ''abc'' 2
         [Join 1 Producer (issue (\<lambda>s e. length s + nat e) ''abc'' 0 100) 5] empty_room))
     = [(2, ProducerSlotOccupied)]"
proof -
  let ?mac = "\<lambda>s e. length s + nat e"
  let ?cred = "issue ?mac ''abc'' 0 100"
  define r where "r = run_room ?mac ''abc'' 2 [Join 1 Producer ?cred 5] empty_room"
  have r: "r = \<lparr>members = [(1, \<lparr>m_role = Producer, m_phase = Joined, outq = [Ready],
                 written = [], joined_at = 0\<rparr>)], rejected = [], broadcasts = []\<rparr>"
    unfolding r_def by (simp add: relay_eval)
  have occ: "producers r \<noteq> []" and fresh: "map_of (members r) 2 = None"
    unfolding r by (simp_all add: producers_def)
  have v: "verify ?mac 7 ?cred = Valid ''abc'' 100"
    by (simp add: verify_def issue_def)
  from room_single_producer [of ?mac "''abc''" 2 "[]"] occ fresh
  have "members (join ?mac ''abc'' 2 Producer ?cred 7 r) = members r"
    and "rejected (join ?mac ''abc'' 2 Producer ?cred 7 r) = rejected r @
           [(2, case verify ?mac 7 ?cred of
                  Invalid \<Rightarrow> if expired ?mac 7 ?cred then SessionExpired else InvalidCredential
                | Valid s e \<Rightarrow> if s \<noteq> ''abc'' then SessionMismatch else ProducerSlotOccupied)]"
    by blast+
  then have "members (join ?mac ''abc'' 2 Producer ?cred 7 r) = members r"
    and "rejected (join ?mac ''abc'' 2 Producer ?cred 7 r) = rejected r @ [(2, ProducerSlotOccupied)]"
    by (simp_all add: v)
  then have "producers r \<noteq> [] \<and>
     members (join ?mac ''abc'' 2 Producer ?cred 7 r)
       = [(1, \<lparr>m_role = Producer, m_phase = Joined, outq = [Ready], written = [],
             joined_at = 0\<rparr>)] \<and>
     rejected (join ?mac ''abc'' 2 Producer ?cred 7 r) = [(2, ProducerSlotOccupied)]"
    using occ by (simp add: r)
  then show ?thesis
    unfolding r_def .
qed

lemma delivery_trace: "run_room (\<lambda>s e. length s + nat e) ''abc'' 4
  [Join 1 Producer (issue (\<lambda>s e. length s + nat e) ''abc'' 0 100) 5,
   Frame 1 (Message (ClientTranscript False ''x'' None)) 7 True,
   Join 2 Consumer (issue (\<lambda>s e. length s + nat e) ''abc'' 0 100) 8,
   Frame 1 (Message (ClientTranscript True ''h'' None)) 10 True,
   Frame 1 (Message (ClientTranscript False ''hello'' (Some 3))) 12 True,
   Written 2,
   Written 2] empty_room
  = \<lparr>members =
    [(1, \<lparr>m_role = Producer, m_phase = Joined, outq = [Ready], written = [],
            joined_at = 0\<rparr>),
     (2, \<lparr>m_role = Consumer, m_phase = Joined,
            outq = [ServerTranscript False ''hello'' 3],
            written = [Ready, ServerTranscript True ''h'' 10], joined_at = 1\<rparr>)],
    rejected = [],
    broadcasts =
      [ServerTranscript False ''x'' 7, ServerTranscript True ''h'' 10,
       ServerTranscript False ''hello'' 3]\<rparr>"
  by (simp add: relay_eval)

lemma delivery_had_room: "had_room (\<lambda>s e. length s + nat e) ''abc'' 4 2
  [Join 1 Producer (issue (\<lambda>s e. length s + nat e) ''abc'' 0 100) 5,
   Frame 1 (Message (ClientTranscript False ''x'' None)) 7 True,
   Join 2 Consumer (issue (\<lambda>s e. length s + nat e) ''abc'' 0 100) 8,
   Frame 1 (Message (ClientTranscript True ''h'' None)) 10 True,
   Frame 1 (Message (ClientTranscript False ''hello'' (Some 3))) 12 True,
   Written 2,
   Written 2] empty_room"
  by (simp add: relay_eval handled_def)

theorem room_fifo_witness:
  "had_room (\<lambda>s e. length s + nat e) ''abc'' 4 2
        [Join 1 Producer (issue (\<lambda>s e. length s + nat e) ''abc'' 0 100) 5,
         Frame 1 (Message (ClientTranscript False ''x'' None)) 7 True,
         Join 2 Consumer (issue (\<lambda>s e. length s + nat e) ''abc'' 0 100) 8,
         Frame 1 (Message (ClientTranscript True ''h'' None)) 10 True,
         Frame 1 (Message (ClientTranscript False ''hello'' (Some 3))) 12 True,
         Written 2,
         Written 2] empty_room \<and>
   (2, \<lparr>m_role = Consumer, m_phase = Joined, outq = [ServerTranscript False ''hello'' 3],
        written = [Ready, ServerTranscript True ''h'' 10], joined_at = 1\<rparr>)
     \<in> set (members (run_room (\<lambda>s e. length s + nat e) ''abc'' 4
        [Join 1 Producer (issue (\<lambda>s e. length s + nat e) ''abc'' 0 100) 5,
         Frame 1 (Message (ClientTranscript False ''x'' None)) 7 True,
         Join 2 Consumer (issue (\<lambda>s e. length s + nat e) ''abc'' 0 100) 8,
         Frame 1 (Message (ClientTranscript True ''h'' None)) 10 True,
         Frame 1 (Message (ClientTranscript False ''hello'' (Some 3))) 12 True,
         Written 2,
         Written 2] empty_room)) \<and>
   drop 1 (broadcasts (run_room (\<lambda>s e. length s + nat e) ''abc'' 4
        [Join 1 Producer (issue (\<lambda>s e. length s + nat e) ''abc'' 0 100) 5,
         Frame 1 (Message (ClientTranscript False ''x'' None)) 7 True,
         Join 2 Consumer (issue (\<lambda>s e. length s + nat e) ''abc'' 0 100) 8,
         Frame 1 (Message (ClientTranscript True ''h'' None)) 10 True,
         Frame 1 (Message (ClientTranscript False ''hello'' (Some 3))) 12 True,
         Written 2,
         Written 2] empty_room))
     = [ServerTranscript True ''h'' 10, ServerTranscript False ''hello'' 3]"
proof -
  let ?mac = "\<lambda>s e. length s + nat e"
  define evs where "evs =
        [Join 1 Producer (issue ?mac ''abc'' 0 100) 5,
         Frame 1 (Message (ClientTranscript False ''x'' None)) 7 True,
         Join 2 Consumer (issue ?mac ''abc'' 0 100) 8,
         Frame 1 (Message (ClientTranscript True ''h'' None)) 10 True,
         Frame 1 (Message (ClientTranscript False ''hello'' (Some 3))) 12 True,
         Written 2,
         Written 2]"
  define R where "R = run_room ?mac ''abc'' 4 evs empty_room"
  let ?mb = "\<lparr>m_role = Consumer, m_phase = Joined, outq = [ServerTranscript False ''hello'' 3],
            written = [Ready, ServerTranscript True ''h'' 10], joined_at = 1\<rparr>"
  have m: "(2, ?mb) \<in> set (members R)"
    unfolding R_def evs_def delivery_trace by simp
  have h: "had_room ?mac ''abc'' 4 2 evs empty_room"
    unfolding evs_def by (rule delivery_had_room)
  have rc: "receives ?mb" by (simp add: receives_def)
  have "\<forall>(c, mb)\<in>set (members R).
      receives mb \<and> had_room ?mac ''abc'' 4 c evs empty_room \<longrightarrow>
        filter is_transcript (written mb @ outq mb) = drop (joined_at mb) (broadcasts R) \<and>
        prefix (filter is_transcript (written mb)) (drop (joined_at mb) (broadcasts R)) \<and>
        (outq mb = [] \<longrightarrow>
           filter is_transcript (written mb) = drop (joined_at mb) (broadcasts R))"
    unfolding R_def using room_fifo [of ?mac "''abc''" 4 evs] by blast
  with m rc h have "filter is_transcript (written ?mb @ outq ?mb)
      = drop (joined_at ?mb) (broadcasts R)"
    by blast
  then have "drop 1 (broadcasts R)
      = [ServerTranscript True ''h'' 10, ServerTranscript False ''hello'' 3]"
    by simp
  with h m have "had_room ?mac ''abc'' 4 2 evs empty_room \<and> (2, ?mb) \<in> set (members R) \<and>
     drop 1 (broadcasts R) = [ServerTranscript True ''h'' 10, ServerTranscript False ''hello'' 3]"
    by blast
  then show ?thesis
    unfolding R_def evs_def .
qed

theorem finals_never_dropped_witness:
  "filter is_final
     (broadcasts (run_room (\<lambda>s e. length s + nat e) ''abc'' 2
        [Join 1 Producer (issue (\<lambda>s e. length s + nat e) ''abc'' 0 100) 5,
         Join 2 Consumer (issue (\<lambda>s e. length s + nat e) ''abc'' 0 100) 6,
         Frame 1 (Message (ClientTranscript True ''h'' None)) 10 True,
         Frame 1 (Message (ClientTranscript True ''he'' None)) 11 True,
         Frame 1 (Message (ClientTranscript False ''hello'' (Some 3))) 12 True,
         Written 2,
         Frame 1 (Message (ClientTranscript False ''world'' None)) 13 True] empty_room))
     = [ServerTranscript False ''hello'' 3, ServerTranscript False ''world'' 13] \<and>
   m_phase (offer 2 (ServerTranscript False ''!'' 14)
     \<lparr>m_role = Consumer, m_phase = Joined,
       outq = [ServerTranscript False ''hello'' 3, ServerTranscript False ''world'' 13],
       written = [Ready], joined_at = 0\<rparr>) = Closing BackpressureOverflow \<and>
   outq (offer 3 (ServerTranscript False ''!'' 14)
     \<lparr>m_role = Consumer, m_phase = Joined,
       outq = [ServerTranscript False ''a'' 9, ServerTranscript True ''h'' 10,
               ServerTranscript True ''he'' 11],
       written = [Ready], joined_at = 0\<rparr>)
     = [ServerTranscript False ''a'' 9, ServerTranscript True ''he'' 11,
        ServerTranscript False ''!'' 14] \<and>
   outq (offer 3 (ServerTranscript True ''hel'' 12)
     \<lparr>m_role = Consumer, m_phase = Joined,
       outq = [Ready, ServerTranscript True ''h'' 10],
       written = [], joined_at = 0\<rparr>)
     = [Ready, ServerTranscript True ''h'' 10, ServerTranscript True ''hel'' 12] \<and>
   outq (offer 2 (ServerTranscript True ''hel'' 12)
     \<lparr>m_role = Consumer, m_phase = Joined,
       outq = [ServerTranscript False ''hello'' 3, ServerTranscript False ''world'' 13],
       written = [Ready], joined_at = 0\<rparr>)
     = [ServerTranscript False ''hello'' 3, ServerTranscript False ''world'' 13]"
proof -
  let ?mac = "\<lambda>s e. length s + nat e"
  define R where "R = run_room ?mac ''abc'' 2
        [Join 1 Producer (issue ?mac ''abc'' 0 100) 5,
         Join 2 Consumer (issue ?mac ''abc'' 0 100) 6,
         Frame 1 (Message (ClientTranscript True ''h'' None)) 10 True,
         Frame 1 (Message (ClientTranscript True ''he'' None)) 11 True,
         Frame 1 (Message (ClientTranscript False ''hello'' (Some 3))) 12 True,
         Written 2,
         Frame 1 (Message (ClientTranscript False ''world'' None)) 13 True] empty_room"
  let ?mb = "\<lparr>m_role = Consumer, m_phase = Joined,
            outq = [ServerTranscript False ''hello'' 3, ServerTranscript False ''world'' 13],
            written = [Ready], joined_at = 0\<rparr>"
  let ?m = "ServerTranscript False ''!'' 14"
  let ?i = "ServerTranscript True ''hel'' 12"
  let ?mb3 = "\<lparr>m_role = Consumer, m_phase = Joined,
       outq = [ServerTranscript False ''a'' 9, ServerTranscript True ''h'' 10,
               ServerTranscript True ''he'' 11],
       written = [Ready], joined_at = 0\<rparr>"
  let ?mb4 = "\<lparr>m_role = Consumer, m_phase = Joined,
       outq = [Ready, ServerTranscript True ''h'' 10],
       written = [], joined_at = 0\<rparr>"
  have m: "(2, ?mb) \<in> set (members R)"
    unfolding R_def relay_trace by simp
  have rc: "receives ?mb" by (simp add: receives_def)
  have jn: "m_phase ?mb = Joined" by simp
  note t = finals_never_dropped [of ?mac "''abc''" 2
        "[Join 1 Producer (issue ?mac ''abc'' 0 100) 5,
         Join 2 Consumer (issue ?mac ''abc'' 0 100) 6,
         Frame 1 (Message (ClientTranscript True ''h'' None)) 10 True,
         Frame 1 (Message (ClientTranscript True ''he'' None)) 11 True,
         Frame 1 (Message (ClientTranscript False ''hello'' (Some 3))) 12 True,
         Written 2,
         Frame 1 (Message (ClientTranscript False ''world'' None)) 13 True]", folded R_def]
  note t3 = finals_never_dropped [of ?mac "''abc''" 3 "[]"]
  from t m rc have "filter is_final (written ?mb @ outq ?mb)
          = filter is_final (drop (joined_at ?mb) (broadcasts R))"
    by blast
  then have a: "filter is_final (broadcasts R)
      = [ServerTranscript False ''hello'' 3, ServerTranscript False ''world'' 13]"
    by simp
  from t jn have "(m_phase (offer 2 ?m ?mb) = Joined \<and>
       filter (\<lambda>x. \<not> is_interim x) (outq (offer 2 ?m ?mb))
         = filter (\<lambda>x. \<not> is_interim x) (outq ?mb @ [?m])) \<or>
      (m_phase (offer 2 ?m ?mb) = Closing BackpressureOverflow \<and> \<not> is_interim ?m \<and>
       2 \<le> length (outq ?mb) \<and> \<not> list_ex is_interim (outq ?mb))"
    by blast
  moreover have "m_phase (offer 2 ?m ?mb) \<noteq> Joined"
    by (simp add: offer_def)
  ultimately have b: "m_phase (offer 2 ?m ?mb) = Closing BackpressureOverflow"
    by blast
  have "outq ?mb3 = [ServerTranscript False ''a'' 9] @ ServerTranscript True ''h'' 10
            # [ServerTranscript True ''he'' 11] \<and>
      is_interim (ServerTranscript True ''h'' 10) \<and>
      \<not> list_ex is_interim [ServerTranscript False ''a'' 9] \<and> 3 \<le> length (outq ?mb3)"
    by simp
  with t3 have "offer 3 ?m ?mb3
      = ?mb3\<lparr>outq := [ServerTranscript False ''a'' 9] @ [ServerTranscript True ''he'' 11] @ [?m]\<rparr>"
    by blast
  then have c: "outq (offer 3 ?m ?mb3)
      = [ServerTranscript False ''a'' 9, ServerTranscript True ''he'' 11, ?m]"
    by simp
  have "length (outq ?mb4) < 3" by simp
  with t3 have "offer 3 ?i ?mb4 = ?mb4\<lparr>outq := outq ?mb4 @ [?i]\<rparr>"
    by blast
  then have d: "outq (offer 3 ?i ?mb4) = [Ready, ServerTranscript True ''h'' 10, ?i]"
    by simp
  have "2 \<le> length (outq ?mb) \<and> \<not> list_ex is_interim (outq ?mb) \<and> is_interim ?i"
    by simp
  with t have "offer 2 ?i ?mb = ?mb"
    by blast
  then have e: "outq (offer 2 ?i ?mb)
      = [ServerTranscript False ''hello'' 3, ServerTranscript False ''world'' 13]"
    by simp
  from a b c d e show ?thesis
    unfolding R_def by simp
qed

end
